theory Spec2Isabelle
  imports Main "HOL-Library.Multiset"
begin

section \<open>The relational store behind the ORM\<close>

text \<open>
  The task in \<^verbatim>\<open>myceleryapp/tasks.py\<close> talks to two tables: the user table of
  \<^verbatim>\<open>django.contrib.auth\<close> (reached through \<^verbatim>\<open>get_user_model()\<close>) and the table
  of the \<^verbatim>\<open>Student\<close> model of \<^verbatim>\<open>myceleryapp/models.py\<close>. Python exceptions are values
  of the type \<open>error\<close>; a Python value that is either a \<^verbatim>\<open>str\<close> or \<^verbatim>\<open>None\<close> is a
  \<open>string option\<close>.
\<close>

datatype error =
    FileNotFoundError
  | UnicodeDecodeError
  | CsvError
  | DoesNotExist
  | MultipleObjectsReturned
  | IntegrityError
  | DataError

text \<open>
  A row of \<^verbatim>\<open>auth_user\<close>. Only the columns the task writes are kept: the others
  (password, flags, dates) take their model defaults and are read by nothing here. All
  four text columns are \<^verbatim>\<open>NOT NULL\<close>; \<^verbatim>\<open>username\<close> is unique.
\<close>

record auth_user =
  user_id :: nat
  username :: string
  user_first_name :: string
  user_last_name :: string
  user_email :: string

text \<open>
  A row of the \<^verbatim>\<open>Student\<close> table. \<^verbatim>\<open>user\<close> is the one-to-one foreign key
  (\<^verbatim>\<open>null=True\<close>, hence an option; the column is unique), \<^verbatim>\<open>reg_no\<close> is unique,
  \<^verbatim>\<open>email\<close> is nullable, every other column is \<^verbatim>\<open>NOT NULL\<close>.
\<close>

record student =
  student_id :: nat
  user :: "nat option"
  reg_no :: string
  first_name :: string
  last_name :: string
  email :: "string option"
  department :: string
  level :: string
  created_at :: nat

text \<open>
  The database: the two tables in insertion order, the next primary key of each, and
  whether the engine enforces \<^verbatim>\<open>max_length\<close> (PostgreSQL and MySQL in strict mode do,
  SQLite does not; the settings module that picks the engine is not part of the
  sources, so both are covered).
\<close>

record database =
  auth_users :: "auth_user list"
  students :: "student list"
  user_seq :: nat
  student_seq :: nat
  enforces_max_length :: bool

definition too_long :: "database \<Rightarrow> nat \<Rightarrow> string option \<Rightarrow> bool" where
  "too_long db n v =
     (enforces_max_length db \<and> (case v of None \<Rightarrow> False | Some s \<Rightarrow> n < length s))"

subsection \<open>The user manager\<close>

text \<open>
  \<^verbatim>\<open>User.objects.get(username=key)\<close>: exactly one match is returned, none raises
  \<^verbatim>\<open>DoesNotExist\<close>, several raise \<^verbatim>\<open>MultipleObjectsReturned\<close>. A lookup with
  \<^verbatim>\<open>None\<close> is the SQL test \<^verbatim>\<open>IS NULL\<close>, which no row of a \<^verbatim>\<open>NOT NULL\<close> column
  passes.
\<close>

definition get_user :: "database \<Rightarrow> string option \<Rightarrow> error + auth_user" where
  "get_user db key =
     (case filter (\<lambda>u. key = Some (username u)) (auth_users db) of
        [] \<Rightarrow> Inl DoesNotExist
      | [u] \<Rightarrow> Inr u
      | _ \<Rightarrow> Inl MultipleObjectsReturned)"

text \<open>
  \<^verbatim>\<open>User.objects.create(username=.., first_name=.., last_name=.., email=..)\<close>: the
  insert fails with \<^verbatim>\<open>DataError\<close> on a value longer than its column (where the engine
  checks), with \<^verbatim>\<open>IntegrityError\<close> on a \<^verbatim>\<open>NULL\<close> in a \<^verbatim>\<open>NOT NULL\<close> column or on a
  username already taken; otherwise the row is appended under the next primary key.
\<close>

definition create_user ::
  "database \<Rightarrow> string option \<Rightarrow> string option \<Rightarrow> string option \<Rightarrow> string option
     \<Rightarrow> error + (auth_user \<times> database)" where
  "create_user db uname fname lname mail =
     (if too_long db 150 uname \<or> too_long db 150 fname \<or> too_long db 150 lname
           \<or> too_long db 254 mail
      then Inl DataError
      else case (uname, fname, lname, mail) of
          (Some u, Some f, Some l, Some m) \<Rightarrow>
            if u \<in> set (map username (auth_users db)) then Inl IntegrityError
            else let new = \<lparr>user_id = user_seq db, username = u, user_first_name = f,
                             user_last_name = l, user_email = m\<rparr>
                 in Inr (new, db\<lparr>auth_users := auth_users db @ [new],
                                user_seq := Suc (user_seq db)\<rparr>)
        | _ \<Rightarrow> Inl IntegrityError)"

text \<open>
  \<^verbatim>\<open>User.objects.get_or_create(username=key, defaults={...})\<close>, as Django's
  \<^verbatim>\<open>QuerySet.get_or_create\<close> does it: \<^verbatim>\<open>get\<close>; on \<^verbatim>\<open>DoesNotExist\<close>,
  \<^verbatim>\<open>create\<close>; on an \<^verbatim>\<open>IntegrityError\<close> of the insert, \<^verbatim>\<open>get\<close> once more and
  re-raise the \<^verbatim>\<open>IntegrityError\<close> if the row is still missing. Every other exception
  propagates. The result is the pair \<^verbatim>\<open>(object, created)\<close> or the exception, with the
  database as the call leaves it.
\<close>

definition user_get_or_create ::
  "database \<Rightarrow> string option \<Rightarrow> string option \<Rightarrow> string option \<Rightarrow> string option
     \<Rightarrow> (error + (auth_user \<times> bool)) \<times> database" where
  "user_get_or_create db key fname lname mail =
     (case get_user db key of
        Inr u \<Rightarrow> (Inr (u, False), db)
      | Inl DoesNotExist \<Rightarrow>
          (case create_user db key fname lname mail of
             Inr (u, db') \<Rightarrow> (Inr (u, True), db')
           | Inl IntegrityError \<Rightarrow>
               (case get_user db key of
                  Inr u \<Rightarrow> (Inr (u, False), db)
                | Inl DoesNotExist \<Rightarrow> (Inl IntegrityError, db)
                | Inl e \<Rightarrow> (Inl e, db))
           | Inl e \<Rightarrow> (Inl e, db))
      | Inl e \<Rightarrow> (Inl e, db))"

subsection \<open>The Student manager\<close>

definition get_student :: "database \<Rightarrow> string option \<Rightarrow> error + student" where
  "get_student db key =
     (case filter (\<lambda>s. key = Some (reg_no s)) (students db) of
        [] \<Rightarrow> Inl DoesNotExist
      | [s] \<Rightarrow> Inr s
      | _ \<Rightarrow> Inl MultipleObjectsReturned)"

text \<open>
  \<^verbatim>\<open>Student.objects.create(reg_no=.., user=.., first_name=.., ...)\<close> with the
  constraints of \<^verbatim>\<open>models.py\<close>: the lengths 50, 50, 50, 254 (the default of
  \<^verbatim>\<open>EmailField\<close>), 120 and 20; \<^verbatim>\<open>NOT NULL\<close> everywhere but \<^verbatim>\<open>email\<close>; unique
  \<^verbatim>\<open>reg_no\<close>; unique \<^verbatim>\<open>user\<close>. \<^verbatim>\<open>created_at\<close> is \<^verbatim>\<open>auto_now_add\<close>: the clock
  reading at the insert, \<open>now i\<close> for the row of primary key \<open>i\<close>.
\<close>

definition create_student ::
  "(nat \<Rightarrow> nat) \<Rightarrow> database \<Rightarrow> string option \<Rightarrow> auth_user \<Rightarrow> string option
     \<Rightarrow> string option \<Rightarrow> string option \<Rightarrow> string option \<Rightarrow> string option
     \<Rightarrow> error + (student \<times> database)" where
  "create_student now db reg usr fname lname mail dept lvl =
     (if too_long db 50 reg \<or> too_long db 50 fname \<or> too_long db 50 lname
           \<or> too_long db 254 mail \<or> too_long db 120 dept \<or> too_long db 20 lvl
      then Inl DataError
      else case (reg, fname, lname, dept, lvl) of
          (Some r, Some f, Some l, Some d, Some v) \<Rightarrow>
            if r \<in> set (map reg_no (students db))
                 \<or> Some (user_id usr) \<in> set (map user (students db))
            then Inl IntegrityError
            else let new = \<lparr>student_id = student_seq db, user = Some (user_id usr),
                             reg_no = r, first_name = f, last_name = l, email = mail,
                             department = d, level = v,
                             created_at = now (student_seq db)\<rparr>
                 in Inr (new, db\<lparr>students := students db @ [new],
                                student_seq := Suc (student_seq db)\<rparr>)
        | _ \<Rightarrow> Inl IntegrityError)"

definition student_get_or_create ::
  "(nat \<Rightarrow> nat) \<Rightarrow> database \<Rightarrow> string option \<Rightarrow> auth_user \<Rightarrow> string option
     \<Rightarrow> string option \<Rightarrow> string option \<Rightarrow> string option \<Rightarrow> string option
     \<Rightarrow> (error + (student \<times> bool)) \<times> database" where
  "student_get_or_create now db key usr fname lname mail dept lvl =
     (case get_student db key of
        Inr s \<Rightarrow> (Inr (s, False), db)
      | Inl DoesNotExist \<Rightarrow>
          (case create_student now db key usr fname lname mail dept lvl of
             Inr (s, db') \<Rightarrow> (Inr (s, True), db')
           | Inl IntegrityError \<Rightarrow>
               (case get_student db key of
                  Inr s \<Rightarrow> (Inr (s, False), db)
                | Inl DoesNotExist \<Rightarrow> (Inl IntegrityError, db)
                | Inl e \<Rightarrow> (Inl e, db))
           | Inl e \<Rightarrow> (Inl e, db))
      | Inl e \<Rightarrow> (Inl e, db))"

section \<open>Reading the file\<close>

text \<open>
  \<^verbatim>\<open>csv.DictReader(file)\<close> pulls one record at a time from \<^verbatim>\<open>csv.reader\<close>, which
  pulls one line at a time from the text file, which reads and decodes the bytes a block
  at a time. So the file is seen as the sequence of what each \<^verbatim>\<open>next(reader)\<close> gives:
  a record (the list of its cells) or an exception (\<^verbatim>\<open>UnicodeDecodeError\<close> from the
  decoder, \<^verbatim>\<open>csv.Error\<close> from the parser) raised when the block holding the fault is
  reached. The end of the list is \<^verbatim>\<open>StopIteration\<close>. A fault in the first block (the
  first 8192 bytes) is an exception at the head of the sequence; a fault further on comes
  after the records that end before its block.
\<close>

datatype line = Record "string list" | Raise error

text \<open>
  The dictionary \<^verbatim>\<open>DictReader.__next__\<close> builds from the field names and a record:
  \<^verbatim>\<open>dict(zip(fieldnames, row))\<close>, a later duplicate name overwriting an earlier one;
  then, when the record is shorter than the header, every remaining field name is set to
  \<^verbatim>\<open>restval\<close>, which is \<^verbatim>\<open>None\<close>. (When it is longer, the surplus cells are stored
  under the key \<^verbatim>\<open>None\<close>, which no string key reads.)
\<close>

definition dict_row :: "string list \<Rightarrow> string list \<Rightarrow> (string \<rightharpoonup> string option)" where
  "dict_row fieldnames row =
     (let d = fold (\<lambda>(k, v) d. d(k \<mapsto> Some v)) (zip fieldnames row) Map.empty
      in if length row < length fieldnames
         then fold (\<lambda>k d. d(k \<mapsto> None)) (drop (length row) fieldnames) d
         else d)"

text \<open>\<^verbatim>\<open>row.get(key)\<close> and \<^verbatim>\<open>row.get(key, default)\<close>.\<close>

definition row_get :: "(string \<rightharpoonup> string option) \<Rightarrow> string \<Rightarrow> string option" where
  "row_get row key = (case row key of None \<Rightarrow> None | Some v \<Rightarrow> v)"

definition row_get_default ::
  "(string \<rightharpoonup> string option) \<Rightarrow> string \<Rightarrow> string \<Rightarrow> string option" where
  "row_get_default row key dflt = (case row key of None \<Rightarrow> Some dflt | Some v \<Rightarrow> v)"

section \<open>The task\<close>

text \<open>
  How a run ends: the function returns (its value is \<^verbatim>\<open>None\<close>: it has no
  \<^verbatim>\<open>return\<close> statement) or an exception leaves it. Nothing in the task catches an
  exception, and nothing wraps the loop in a transaction, so the database keeps every
  insert made before the exception.
\<close>

datatype outcome = Returned | Raised error

text \<open>The body of the \<^verbatim>\<open>for\<close> loop of \<^verbatim>\<open>process_students_csv\<close>, for one row.\<close>

definition process_row ::
  "(nat \<Rightarrow> nat) \<Rightarrow> (string \<rightharpoonup> string option) \<Rightarrow> database \<Rightarrow> outcome \<times> database" where
  "process_row now row db =
     (let reg = row_get row ''reg_no'';
          fname = row_get row ''first_name'';
          lname = row_get row ''last_name'';
          mail = row_get row ''email'';
          dept = row_get_default row ''department'' '''';
          lvl = row_get_default row ''level'' ''''
      in case user_get_or_create db reg fname lname mail of
           (Inl e, db1) \<Rightarrow> (Raised e, db1)
         | (Inr (usr, created), db1) \<Rightarrow>
             (case student_get_or_create now db1 reg usr fname lname mail dept lvl of
                (Inl e, db2) \<Rightarrow> (Raised e, db2)
              | (Inr _, db2) \<Rightarrow> (Returned, db2)))"

text \<open>
  The loop \<^verbatim>\<open>for row in reader\<close>: \<^verbatim>\<open>DictReader\<close> skips empty records, turns every
  other one into a dictionary, and the body runs on it; an exception of the reader or of
  the body ends the loop.
\<close>

fun rows_loop ::
  "(nat \<Rightarrow> nat) \<Rightarrow> string list \<Rightarrow> line list \<Rightarrow> database \<Rightarrow> outcome \<times> database" where
  "rows_loop now fieldnames [] db = (Returned, db)"
| "rows_loop now fieldnames (Raise e # rest) db = (Raised e, db)"
| "rows_loop now fieldnames (Record row # rest) db =
     (if row = [] then rows_loop now fieldnames rest db
      else case process_row now (dict_row fieldnames row) db of
             (Returned, db') \<Rightarrow> rows_loop now fieldnames rest db'
           | (Raised e, db') \<Rightarrow> (Raised e, db'))"

text \<open>
  \<^verbatim>\<open>DictReader\<close> takes the first record, whatever it holds, as the field names (an
  empty file has none and yields no row).
\<close>

definition dict_reader ::
  "(nat \<Rightarrow> nat) \<Rightarrow> line list \<Rightarrow> database \<Rightarrow> outcome \<times> database" where
  "dict_reader now lines db =
     (case lines of
        [] \<Rightarrow> (Returned, db)
      | Raise e # rest \<Rightarrow> (Raised e, db)
      | Record fieldnames # rest \<Rightarrow> rows_loop now fieldnames rest db)"

text \<open>
  \<^verbatim>\<open>process_students_csv(file_path)\<close>. \<open>fs\<close> is the file system as the task reads
  it: a path that cannot be opened is unmapped.
\<close>

definition process_students_csv ::
  "(nat \<Rightarrow> nat) \<Rightarrow> (string \<rightharpoonup> line list) \<Rightarrow> string \<Rightarrow> database \<Rightarrow> outcome \<times> database" where
  "process_students_csv now fs file_path db =
     (case fs file_path of
        None \<Rightarrow> (Raised FileNotFoundError, db)
      | Some lines \<Rightarrow> dict_reader now lines db)"

section \<open>The worker and the result backend\<close>

text \<open>
  What Celery's result backend keeps for a task that has run: its state and its return
  value, or the exception that ended it. The task above returns \<^verbatim>\<open>None\<close>.
\<close>

datatype retval = PyNone | Exc error

record task_meta =
  status :: string
  result :: retval

text \<open>
  The worker runs the task on the path it was sent and stores the outcome under the
  task's id: \<^verbatim>\<open>SUCCESS\<close> with the return value, or \<^verbatim>\<open>FAILURE\<close> with the exception.
\<close>

definition run_task ::
  "(nat \<Rightarrow> nat) \<Rightarrow> (string \<rightharpoonup> line list) \<Rightarrow> (string \<rightharpoonup> task_meta) \<Rightarrow> database
     \<Rightarrow> string \<Rightarrow> string \<Rightarrow> database \<times> (string \<rightharpoonup> task_meta)" where
  "run_task now fs backend db task_id file_path =
     (case process_students_csv now fs file_path db of
        (Returned, db') \<Rightarrow>
          (db', backend(task_id \<mapsto> \<lparr>status = ''SUCCESS'', result = PyNone\<rparr>))
      | (Raised e, db') \<Rightarrow>
          (db', backend(task_id \<mapsto> \<lparr>status = ''FAILURE'', result = Exc e\<rparr>)))"

text \<open>
  \<^verbatim>\<open>AsyncResult(task_id, app=app).status\<close>: the state the backend holds for the id,
  and \<^verbatim>\<open>PENDING\<close> for an id it holds nothing for (Celery cannot tell a task that
  waits from an id it never issued). The application object lives in
  \<^verbatim>\<open>mysite/celery.py\<close>, outside these sources; it is taken to configure a result
  backend, as a view that reads the status needs one.
\<close>

definition AsyncResult_status :: "(string \<rightharpoonup> task_meta) \<Rightarrow> string \<Rightarrow> string" where
  "AsyncResult_status backend task_id =
     (case backend task_id of None \<Rightarrow> ''PENDING'' | Some meta \<Rightarrow> status meta)"

section \<open>The views\<close>

text \<open>
  A \<^verbatim>\<open>Response\<close>: the HTTP status code and the body, a dictionary written as the
  list of its items in order.
\<close>

record response =
  status_code :: nat
  data :: "(string \<times> string) list"

text \<open>\<^verbatim>\<open>get_task_status(request, task_id)\<close>; a \<^verbatim>\<open>Response\<close> without a status is 200.\<close>

definition get_task_status :: "(string \<rightharpoonup> task_meta) \<Rightarrow> string \<Rightarrow> response" where
  "get_task_status backend task_id =
     \<lparr>status_code = 200,
      data = [(''task_id'', task_id), (''status'', AsyncResult_status backend task_id)]\<rparr>"

text \<open>
  An uploaded file (its name and the byte chunks \<^verbatim>\<open>file.chunks()\<close> yields) and what
  the upload view changes: the directories that exist, the content of the files on disk,
  and the messages sent to the broker, each a task id with the task's argument.
\<close>

record uploaded_file =
  name :: string
  chunks :: "string list"

record server =
  dirs :: "string set"
  disk :: "string \<rightharpoonup> string"
  queue :: "(string \<times> string) list"

text \<open>\<^verbatim>\<open>os.path.join(a, b)\<close> of \<^verbatim>\<open>posixpath\<close>.\<close>

definition path_join :: "string \<Rightarrow> string \<Rightarrow> string" where
  "path_join a b =
     (if take 1 b = ''/'' then b
      else if a = [] \<or> last a = CHR ''/'' then a @ b
      else a @ ''/'' @ b)"

text \<open>
  \<^verbatim>\<open>upload_students_csv(request)\<close>. \<open>MEDIA_ROOT\<close> is the setting of that name,
  \<open>FILES\<close> is \<^verbatim>\<open>request.FILES\<close>, \<open>new_id\<close> is the id \<^verbatim>\<open>delay\<close> gives the task it
  sends. \<^verbatim>\<open>not file\<close> holds for \<^verbatim>\<open>None\<close> and for a file whose name is empty. Past
  that test the file system is taken to accept the directory and the write.
\<close>

definition upload_students_csv ::
  "string \<Rightarrow> string \<Rightarrow> (string \<rightharpoonup> uploaded_file) \<Rightarrow> server \<Rightarrow> response \<times> server" where
  "upload_students_csv MEDIA_ROOT new_id FILES srv =
     (let bad_request = \<lparr>status_code = 400, data = [(''error'', ''CSV file is required.'')]\<rparr>
      in case FILES ''file'' of
           None \<Rightarrow> (bad_request, srv)
         | Some file \<Rightarrow>
             if name file = [] then (bad_request, srv)
             else
               let srv1 = srv\<lparr>dirs := insert MEDIA_ROOT (dirs srv)\<rparr>;
                   file_path = path_join MEDIA_ROOT (name file);
                   srv2 = srv1\<lparr>disk := (disk srv1)(file_path \<mapsto> concat (chunks file))\<rparr>;
                   srv3 = srv2\<lparr>queue := queue srv2 @ [(new_id, file_path)]\<rparr>
               in (\<lparr>status_code = 202,
                    data = [(''message'', ''CSV upload received. Processing started.''),
                            (''task_id'', new_id),
                            (''status'', ''PENDING'')]\<rparr>, srv3))"

section \<open>Constraints and sample data\<close>

text \<open>
  The three unique constraints of the two tables: \<^verbatim>\<open>auth_user.username\<close>,
  \<^verbatim>\<open>Student.reg_no\<close>, and \<^verbatim>\<open>Student.user\<close> among the rows where it is not
  \<^verbatim>\<open>NULL\<close>.
\<close>

definition unique_constraints :: "database \<Rightarrow> bool" where
  "unique_constraints db =
     (distinct (map username (auth_users db)) \<and> distinct (map reg_no (students db))
      \<and> distinct (filter (\<lambda>r. r \<noteq> None) (map user (students db))))"

text \<open>
  A key is settled in a database when the user table and the Student table each hold
  exactly one row for it; both lookups of the task's loop body then hit.
\<close>

definition settled :: "database \<Rightarrow> string option \<Rightarrow> bool" where
  "settled db k =
     ((\<exists>u. filter (\<lambda>x. k = Some (username x)) (auth_users db) = [u])
      \<and> (\<exists>s. filter (\<lambda>x. k = Some (reg_no x)) (students db) = [s]))"

text \<open>
  Sample data: the header the upload is expected to carry, an empty SQLite-like
  database, three records, and the rows the first record leaves behind when it is
  processed at clock reading \<open>t\<close>.
\<close>

definition csv_header :: "string list" where
  "csv_header = [''reg_no'', ''first_name'', ''last_name'', ''email'', ''department'', ''level'']"

definition empty_db :: database where
  "empty_db = \<lparr>auth_users = [], students = [], user_seq = 1, student_seq = 1,
               enforces_max_length = False\<rparr>"

definition ada :: "string list" where
  "ada = [''S001'', ''Ada'', ''Lovelace'', ''ada@x.com'', ''CS'', ''300'']"

definition ada_again :: "string list" where
  "ada_again = [''S001'', ''Ada'', ''L'', '''', ''CS'', ''300'']"

definition bob :: "string list" where
  "bob = [''S002'', ''Bob'', ''Stone'', ''bob@x.com'', ''EE'', ''100'']"

definition ada_user :: auth_user where
  "ada_user = \<lparr>user_id = 1, username = ''S001'', user_first_name = ''Ada'',
                user_last_name = ''Lovelace'', user_email = ''ada@x.com''\<rparr>"

definition ada_student :: "nat \<Rightarrow> student" where
  "ada_student t = \<lparr>student_id = 1, user = Some 1, reg_no = ''S001'', first_name = ''Ada'',
                   last_name = ''Lovelace'', email = Some ''ada@x.com'', department = ''CS'',
                   level = ''300'', created_at = t\<rparr>"

definition ada_db :: "nat \<Rightarrow> database" where
  "ada_db t = \<lparr>auth_users = [ada_user], students = [ada_student t], user_seq = 2,
               student_seq = 2, enforces_max_length = False\<rparr>"

text \<open>
  Two databases are compared by what the entities say, not by the primary keys and the
  timestamps the store hands out: an account by its four columns, a profile by its six
  columns and by the username of the account it refers to.
\<close>

definition account_fields :: "auth_user \<Rightarrow> string \<times> string \<times> string \<times> string" where
  "account_fields u = (username u, user_first_name u, user_last_name u, user_email u)"

definition account_of :: "database \<Rightarrow> student \<Rightarrow> string option" where
  "account_of db s =
     (case user s of
        None \<Rightarrow> None
      | Some i \<Rightarrow> map_option username (find (\<lambda>u. user_id u = i) (auth_users db)))"

definition profile_fields ::
  "database \<Rightarrow> student
     \<Rightarrow> string \<times> string \<times> string \<times> string option \<times> string \<times> string \<times> string option" where
  "profile_fields db s =
     (reg_no s, first_name s, last_name s, email s, department s, level s, account_of db s)"

definition accounts :: "database \<Rightarrow> (string \<times> string \<times> string \<times> string) set" where
  "accounts db = set (map account_fields (auth_users db))"

definition profiles ::
  "database \<Rightarrow> (string \<times> string \<times> string \<times> string option \<times> string \<times> string \<times> string option) set" where
  "profiles db = set (map (profile_fields db) (students db))"

text \<open>
  The records of a file that reach the loop body, and the \<^verbatim>\<open>reg_no\<close> each of them
  carries.
\<close>

definition is_data :: "line \<Rightarrow> bool" where
  "is_data l = (case l of Record row \<Rightarrow> row \<noteq> [] | Raise e \<Rightarrow> False)"

definition line_key :: "string list \<Rightarrow> line \<Rightarrow> string option" where
  "line_key fieldnames l =
     (case l of Record row \<Rightarrow> row_get (dict_row fieldnames row) ''reg_no'' | Raise e \<Rightarrow> None)"

definition batch_keys :: "string list \<Rightarrow> line list \<Rightarrow> string option list" where
  "batch_keys fieldnames lines = map (line_key fieldnames) (filter is_data lines)"

text \<open>
  A database is consistent when it satisfies its unique constraints, the primary keys of
  the accounts are pairwise different and below the next key, and every profile refers
  to no account or to a stored one.
\<close>

definition consistent :: "database \<Rightarrow> bool" where
  "consistent db =
     (unique_constraints db
      \<and> distinct (map user_id (auth_users db))
      \<and> (\<forall>u\<in>set (auth_users db). user_id u < user_seq db)
      \<and> set (map user (students db))
            \<subseteq> insert None (Some ` set (map user_id (auth_users db))))"

text \<open>
  When the loop body goes through for a row, read off the row and the database: the
  \<^verbatim>\<open>reg_no\<close> is there; the account exists or can be inserted; the profile exists or
  can be inserted, which also needs that no other profile refers to the account.
\<close>

definition user_insertable :: "database \<Rightarrow> (string \<rightharpoonup> string option) \<Rightarrow> bool" where
  "user_insertable db row =
     (\<not> too_long db 150 (row_get row ''reg_no'') \<and> \<not> too_long db 150 (row_get row ''first_name'')
      \<and> \<not> too_long db 150 (row_get row ''last_name'') \<and> \<not> too_long db 254 (row_get row ''email'')
      \<and> row_get row ''first_name'' \<noteq> None \<and> row_get row ''last_name'' \<noteq> None
      \<and> row_get row ''email'' \<noteq> None)"

definition student_insertable :: "database \<Rightarrow> (string \<rightharpoonup> string option) \<Rightarrow> bool" where
  "student_insertable db row =
     (\<not> too_long db 50 (row_get row ''reg_no'') \<and> \<not> too_long db 50 (row_get row ''first_name'')
      \<and> \<not> too_long db 50 (row_get row ''last_name'') \<and> \<not> too_long db 254 (row_get row ''email'')
      \<and> \<not> too_long db 120 (row_get_default row ''department'' '''')
      \<and> \<not> too_long db 20 (row_get_default row ''level'' '''')
      \<and> row_get row ''first_name'' \<noteq> None \<and> row_get row ''last_name'' \<noteq> None
      \<and> row_get_default row ''department'' '''' \<noteq> None
      \<and> row_get_default row ''level'' '''' \<noteq> None)"

definition row_ok :: "database \<Rightarrow> (string \<rightharpoonup> string option) \<Rightarrow> bool" where
  "row_ok db row =
     (case row_get row ''reg_no'' of
        None \<Rightarrow> False
      | Some k \<Rightarrow>
          (k \<in> set (map username (auth_users db)) \<or> user_insertable db row)
          \<and> (k \<in> set (map reg_no (students db))
               \<or> (student_insertable db row
                   \<and> (\<forall>u\<in>set (auth_users db).
                         username u = k \<longrightarrow> Some (user_id u) \<notin> set (map user (students db))))))"

definition line_ok :: "string list \<Rightarrow> database \<Rightarrow> line \<Rightarrow> bool" where
  "line_ok fieldnames db l =
     (case l of
        Record row \<Rightarrow> row = [] \<or> row_ok db (dict_row fieldnames row)
      | Raise e \<Rightarrow> False)"

text \<open>The field tuples of the account and the profile a row creates.\<close>

definition row_account ::
  "(string \<rightharpoonup> string option) \<Rightarrow> string \<times> string \<times> string \<times> string" where
  "row_account row =
     (the (row_get row ''reg_no''), the (row_get row ''first_name''),
      the (row_get row ''last_name''), the (row_get row ''email''))"

definition row_profile ::
  "(string \<rightharpoonup> string option)
     \<Rightarrow> string \<times> string \<times> string \<times> string option \<times> string \<times> string \<times> string option" where
  "row_profile row =
     (the (row_get row ''reg_no''), the (row_get row ''first_name''),
      the (row_get row ''last_name''), row_get row ''email'',
      the (row_get_default row ''department'' ''''), the (row_get_default row ''level'' ''''),
      row_get row ''reg_no'')"

section \<open>Auxiliary facts\<close>

lemmas model_defs =
  process_students_csv_def dict_reader_def process_row_def dict_row_def row_get_def
  row_get_default_def user_get_or_create_def get_user_def create_user_def too_long_def
  student_get_or_create_def get_student_def create_student_def Let_def

lemmas example_defs =
  csv_header_def empty_db_def ada_def ada_again_def bob_def ada_user_def ada_student_def
  ada_db_def

subsection \<open>Lookups and inserts\<close>

lemma filter_key_unique:
  "distinct (map f xs) \<Longrightarrow> x \<in> set xs \<Longrightarrow> filter (\<lambda>y. Some (f x) = Some (f y)) xs = [x]"
proof (induction xs)
  case Nil
  then show ?case by simp
next
  case (Cons a xs)
  show ?case
  proof (cases "a = x")
    case True
    with Cons.prems have "\<forall>y\<in>set xs. f y \<noteq> f x" by (metis distinct.simps(2) image_eqI list.simps(9) set_map)
    then have "filter (\<lambda>y. Some (f x) = Some (f y)) xs = []" by (auto simp: filter_empty_conv)
    with True show ?thesis by simp
  next
    case False
    with Cons.prems have "x \<in> set xs" "f a \<noteq> f x" by auto
    with Cons show ?thesis by auto
  qed
qed

lemma user_hit:
  "filter (\<lambda>u. key = Some (username u)) (auth_users db) = [u]
     \<Longrightarrow> user_get_or_create db key fname lname mail = (Inr (u, False), db)"
  by (simp add: user_get_or_create_def get_user_def)

lemma student_hit:
  "filter (\<lambda>s. key = Some (reg_no s)) (students db) = [s]
     \<Longrightarrow> student_get_or_create now db key usr fname lname mail dept lvl = (Inr (s, False), db)"
  by (simp add: student_get_or_create_def get_student_def)

lemma get_user_cases:
  "get_user db key = Inr u \<longleftrightarrow> filter (\<lambda>x. key = Some (username x)) (auth_users db) = [u]"
  "get_user db key = Inl DoesNotExist \<longleftrightarrow> filter (\<lambda>x. key = Some (username x)) (auth_users db) = []"
  by (auto simp: get_user_def split: list.splits)

lemma get_student_cases:
  "get_student db key = Inr s \<longleftrightarrow> filter (\<lambda>x. key = Some (reg_no x)) (students db) = [s]"
  "get_student db key = Inl DoesNotExist \<longleftrightarrow> filter (\<lambda>x. key = Some (reg_no x)) (students db) = []"
  by (auto simp: get_student_def split: list.splits)

lemma create_user_result:
  "create_user db key fname lname mail = Inr (u, db') \<Longrightarrow>
     key = Some (username u) \<and> username u \<notin> set (map username (auth_users db))
     \<and> auth_users db' = auth_users db @ [u] \<and> students db' = students db
     \<and> enforces_max_length db' = enforces_max_length db
     \<and> student_seq db' = student_seq db
     \<and> Some (user_first_name u) = fname \<and> Some (user_last_name u) = lname
     \<and> Some (user_email u) = mail \<and> user_id u = user_seq db \<and> user_seq db' = Suc (user_seq db)"
  by (auto simp: create_user_def Let_def split: if_splits option.splits)

lemma create_student_result:
  "create_student now db key usr fname lname mail dept lvl = Inr (s, db') \<Longrightarrow>
     key = Some (reg_no s) \<and> reg_no s \<notin> set (map reg_no (students db))
     \<and> Some (user_id usr) \<notin> set (map user (students db))
     \<and> students db' = students db @ [s] \<and> auth_users db' = auth_users db
     \<and> enforces_max_length db' = enforces_max_length db
     \<and> user_seq db' = user_seq db \<and> student_seq db' = Suc (student_seq db)
     \<and> user s = Some (user_id usr)
     \<and> Some (first_name s) = fname \<and> Some (last_name s) = lname \<and> email s = mail
     \<and> Some (department s) = dept \<and> Some (level s) = lvl"
  by (auto simp: create_student_def Let_def split: if_splits option.splits)

lemma user_get_or_create_cases:
  assumes "user_get_or_create db key fname lname mail = (r, db')"
  shows "(\<exists>u. r = Inr (u, False) \<and> db' = db \<and> get_user db key = Inr u)
       \<or> (\<exists>u. r = Inr (u, True) \<and> get_user db key = Inl DoesNotExist
              \<and> create_user db key fname lname mail = Inr (u, db'))
       \<or> (\<exists>e. r = Inl e \<and> db' = db)"
  using assms
  by (auto simp: user_get_or_create_def split: sum.splits error.splits prod.splits)

lemma student_get_or_create_cases:
  assumes "student_get_or_create now db key usr fname lname mail dept lvl = (r, db')"
  shows "(\<exists>s. r = Inr (s, False) \<and> db' = db \<and> get_student db key = Inr s)
       \<or> (\<exists>s. r = Inr (s, True) \<and> get_student db key = Inl DoesNotExist
              \<and> create_student now db key usr fname lname mail dept lvl = Inr (s, db'))
       \<or> (\<exists>e. r = Inl e \<and> db' = db)"
  using assms
  by (auto simp: student_get_or_create_def split: sum.splits error.splits prod.splits)

lemma user_failure_keeps_db:
  "user_get_or_create db key fname lname mail = (Inl e, db') \<Longrightarrow> db' = db"
  by (auto simp: user_get_or_create_def split: sum.splits error.splits prod.splits)

lemma student_failure_keeps_db:
  "student_get_or_create now db key usr fname lname mail dept lvl = (Inl e, db') \<Longrightarrow> db' = db"
  by (auto simp: student_get_or_create_def split: sum.splits error.splits prod.splits)

lemma user_upsert_present:
  assumes "user_get_or_create db key fname lname mail = (Inr (u, c), db')"
  shows "filter (\<lambda>x. key = Some (username x)) (auth_users db') = [u]
       \<and> students db' = students db"
  using user_get_or_create_cases[OF assms]
proof (elim disjE exE conjE)
  fix u' assume "Inr (u, c) = Inr (u', False)" "db' = db" "get_user db key = Inr u'"
  then show ?thesis by (simp add: get_user_cases)
next
  fix u' assume a: "Inr (u, c) = Inr (u', True)" "get_user db key = Inl DoesNotExist"
     "create_user db key fname lname mail = Inr (u', db')"
  from create_user_result[OF a(3)] a(1,2) show ?thesis
    by (auto simp: get_user_cases)
next
  fix e assume "Inr (u, c) = Inl e"
  then show ?thesis by simp
qed

lemma student_upsert_present:
  assumes "student_get_or_create now db key usr fname lname mail dept lvl = (Inr (s, c), db')"
  shows "filter (\<lambda>x. key = Some (reg_no x)) (students db') = [s]
       \<and> auth_users db' = auth_users db"
  using student_get_or_create_cases[OF assms]
proof (elim disjE exE conjE)
  fix s' assume "Inr (s, c) = Inr (s', False)" "db' = db" "get_student db key = Inr s'"
  then show ?thesis by (simp add: get_student_cases)
next
  fix s' assume a: "Inr (s, c) = Inr (s', True)" "get_student db key = Inl DoesNotExist"
     "create_student now db key usr fname lname mail dept lvl = Inr (s', db')"
  from create_student_result[OF a(3)] a(1,2) show ?thesis
    by (auto simp: get_student_cases)
next
  fix e assume "Inr (s, c) = Inl e"
  then show ?thesis by simp
qed

lemma user_upsert_keeps_match:
  assumes "user_get_or_create db key fname lname mail = (r, db')"
      and "filter (\<lambda>x. k = Some (username x)) (auth_users db) = [u0]"
  shows "filter (\<lambda>x. k = Some (username x)) (auth_users db') = [u0]
       \<and> students db' = students db"
  using user_get_or_create_cases[OF assms(1)]
proof (elim disjE exE conjE)
  fix u assume a: "r = Inr (u, True)" "get_user db key = Inl DoesNotExist"
     "create_user db key fname lname mail = Inr (u, db')"
  from a(2) have none: "filter (\<lambda>x. key = Some (username x)) (auth_users db) = []"
    by (simp add: get_user_cases)
  with assms(2) have "k \<noteq> key" by auto
  with create_user_result[OF a(3)] assms(2) show ?thesis by auto
qed (use assms(2) in auto)

lemma student_upsert_keeps_match:
  assumes "student_get_or_create now db key usr fname lname mail dept lvl = (r, db')"
      and "filter (\<lambda>x. k = Some (reg_no x)) (students db) = [s0]"
  shows "filter (\<lambda>x. k = Some (reg_no x)) (students db') = [s0]
       \<and> auth_users db' = auth_users db"
  using student_get_or_create_cases[OF assms(1)]
proof (elim disjE exE conjE)
  fix s assume a: "r = Inr (s, True)" "get_student db key = Inl DoesNotExist"
     "create_student now db key usr fname lname mail dept lvl = Inr (s, db')"
  from a(2) have none: "filter (\<lambda>x. key = Some (reg_no x)) (students db) = []"
    by (simp add: get_student_cases)
  with assms(2) have "k \<noteq> key" by auto
  with create_student_result[OF a(3)] assms(2) show ?thesis by auto
qed (use assms(2) in auto)

lemma user_null_key:
  "user_get_or_create db None fname lname mail =
     (Inl (if too_long db 150 fname \<or> too_long db 150 lname \<or> too_long db 254 mail
           then DataError else IntegrityError), db)"
  by (simp add: user_get_or_create_def get_user_def create_user_def too_long_def)

subsection \<open>The dictionary of a record\<close>

lemma dict_row_fold1:
  "k \<notin> set (map fst kvs) \<Longrightarrow> fold (\<lambda>(k, v) d. d(k \<mapsto> Some v)) kvs d k = d k"
  by (induction kvs arbitrary: d) auto

lemma dict_row_fold2:
  "k \<notin> set ks \<Longrightarrow> fold (\<lambda>k d. d(k \<mapsto> None)) ks d k = d k"
  by (induction ks arbitrary: d) auto

lemma dict_row_absent: "k \<notin> set fieldnames \<Longrightarrow> dict_row fieldnames row k = None"
proof -
  assume a: "k \<notin> set fieldnames"
  have "set (map fst (zip fieldnames row)) \<subseteq> set fieldnames"
    by (auto dest: set_zip_leftD)
  with a have 1: "k \<notin> set (map fst (zip fieldnames row))" by blast
  from a have 2: "k \<notin> set (drop (length row) fieldnames)" by (auto dest: in_set_dropD)
  show ?thesis
    by (simp add: dict_row_def Let_def dict_row_fold1[OF 1] dict_row_fold2[OF 2])
qed

subsection \<open>One row, then the loop\<close>

lemma process_row_cases:
  assumes "process_row now row db = (out, db')"
  shows "(\<exists>e. out = Raised e \<and> db' = db
            \<and> user_get_or_create db (row_get row ''reg_no'') (row_get row ''first_name'')
                 (row_get row ''last_name'') (row_get row ''email'') = (Inl e, db))
       \<or> (\<exists>u c db1 r. user_get_or_create db (row_get row ''reg_no'') (row_get row ''first_name'')
                 (row_get row ''last_name'') (row_get row ''email'') = (Inr (u, c), db1)
             \<and> student_get_or_create now db1 (row_get row ''reg_no'') u
                 (row_get row ''first_name'') (row_get row ''last_name'') (row_get row ''email'')
                 (row_get_default row ''department'' '''') (row_get_default row ''level'' '''')
                 = (r, db')
             \<and> (case r of Inl e \<Rightarrow> out = Raised e \<and> db' = db1 | Inr _ \<Rightarrow> out = Returned))"
  using assms
  by (auto simp: process_row_def Let_def split: prod.splits sum.splits
           dest: user_failure_keeps_db student_failure_keeps_db)

lemma process_row_null_key:
  "row_get row ''reg_no'' = None \<Longrightarrow>
     snd (process_row now row db) = db
     \<and> fst (process_row now row db) \<in> {Raised IntegrityError, Raised DataError}"
  by (simp add: process_row_def user_null_key)

lemma settled_process_row:
  "settled db (row_get row ''reg_no'') \<Longrightarrow> process_row now row db = (Returned, db)"
  by (auto simp: settled_def process_row_def Let_def user_hit student_hit)

lemma process_row_settles:
  assumes "process_row now row db = (Returned, db')"
  shows "settled db' (row_get row ''reg_no'')"
  using process_row_cases[OF assms]
proof (elim disjE exE conjE)
  fix u c db1 r
  assume a: "user_get_or_create db (row_get row ''reg_no'') (row_get row ''first_name'')
                 (row_get row ''last_name'') (row_get row ''email'') = (Inr (u, c), db1)"
       "student_get_or_create now db1 (row_get row ''reg_no'') u
                 (row_get row ''first_name'') (row_get row ''last_name'') (row_get row ''email'')
                 (row_get_default row ''department'' '''') (row_get_default row ''level'' '''')
                 = (r, db')"
       "case r of Inl e \<Rightarrow> Returned = Raised e \<and> db' = db1 | Inr _ \<Rightarrow> Returned = Returned"
  from a(3) obtain s c' where r: "r = Inr (s, c')" by (cases r) auto
  from user_upsert_present[OF a(1)] student_upsert_present[OF a(2)[unfolded r]]
  show ?thesis by (simp add: settled_def)
qed simp

lemma process_row_keeps_settled:
  assumes "process_row now row db = (out, db')" and "settled db k"
  shows "settled db' k"
proof -
  from assms(2) obtain u0 s0 where
    u0: "filter (\<lambda>x. k = Some (username x)) (auth_users db) = [u0]" and
    s0: "filter (\<lambda>x. k = Some (reg_no x)) (students db) = [s0]"
    by (auto simp: settled_def)
  from process_row_cases[OF assms(1)] show ?thesis
  proof (elim disjE exE conjE)
    fix e assume "db' = db"
    with assms(2) show ?thesis by simp
  next
    fix u c db1 r
    assume a: "user_get_or_create db (row_get row ''reg_no'') (row_get row ''first_name'')
                 (row_get row ''last_name'') (row_get row ''email'') = (Inr (u, c), db1)"
       "student_get_or_create now db1 (row_get row ''reg_no'') u
                 (row_get row ''first_name'') (row_get row ''last_name'') (row_get row ''email'')
                 (row_get_default row ''department'' '''') (row_get_default row ''level'' '''')
                 = (r, db')"
    from user_upsert_keeps_match[OF a(1) u0] s0
    have 1: "filter (\<lambda>x. k = Some (username x)) (auth_users db1) = [u0]"
            "filter (\<lambda>x. k = Some (reg_no x)) (students db1) = [s0]" by simp_all
    from student_upsert_keeps_match[OF a(2) 1(2)] 1(1)
    show ?thesis by (simp add: settled_def)
  qed
qed

lemma process_row_stable:
  assumes "process_row now row db = (out, db')"
  shows "process_row now' row db' = (out, db')"
proof (cases out)
  case Returned
  with assms show ?thesis
    using process_row_settles settled_process_row by blast
next
  case (Raised e)
  from process_row_cases[OF assms] show ?thesis
  proof (elim disjE exE conjE)
    fix e' assume "out = Raised e'" "db' = db"
      "user_get_or_create db (row_get row ''reg_no'') (row_get row ''first_name'')
                 (row_get row ''last_name'') (row_get row ''email'') = (Inl e', db)"
    then show ?thesis by (simp add: process_row_def)
  next
    fix u c db1 r
    assume a: "user_get_or_create db (row_get row ''reg_no'') (row_get row ''first_name'')
                 (row_get row ''last_name'') (row_get row ''email'') = (Inr (u, c), db1)"
       "student_get_or_create now db1 (row_get row ''reg_no'') u
                 (row_get row ''first_name'') (row_get row ''last_name'') (row_get row ''email'')
                 (row_get_default row ''department'' '''') (row_get_default row ''level'' '''')
                 = (r, db')"
       "case r of Inl e \<Rightarrow> out = Raised e \<and> db' = db1 | Inr _ \<Rightarrow> out = Returned"
    with Raised have r: "r = Inl e" "db' = db1" by (auto split: sum.splits)
    from user_upsert_present[OF a(1)]
    have hit: "user_get_or_create db1 (row_get row ''reg_no'') x y z = (Inr (u, False), db1)"
      for x y z by (simp add: user_hit)
    from student_get_or_create_cases[OF a(2)] r
    have "student_get_or_create now' db1 (row_get row ''reg_no'') u
                 (row_get row ''first_name'') (row_get row ''last_name'') (row_get row ''email'')
                 (row_get_default row ''department'' '''') (row_get_default row ''level'' '''')
                 = (Inl e, db1)"
      using a(2)
      by (auto simp: student_get_or_create_def create_student_def Let_def
               split: sum.splits error.splits prod.splits if_splits option.splits)
    with hit r Raised show ?thesis by (simp add: process_row_def)
  qed
qed

lemma rows_loop_append:
  "rows_loop now fn (xs @ ys) db =
     (case rows_loop now fn xs db of
        (Returned, db') \<Rightarrow> rows_loop now fn ys db'
      | (Raised e, db') \<Rightarrow> (Raised e, db'))"
proof (induction now fn xs db rule: rows_loop.induct)
  case (1 now fieldnames db)
  then show ?case by simp
next
  case (2 now fieldnames e rest db)
  then show ?case by simp
next
  case (3 now fieldnames row rest db)
  then show ?case
    by (auto split: prod.splits outcome.splits)
qed

lemma rows_loop_keeps_settled:
  "rows_loop now fn lines db = (out, db') \<Longrightarrow> settled db k \<Longrightarrow> settled db' k"
proof (induction now fn lines db rule: rows_loop.induct)
  case (3 now fieldnames row rest db)
  show ?case
  proof (cases "row = []")
    case True
    with 3 show ?thesis by simp
  next
    case False
    obtain o1 db1 where p: "process_row now (dict_row fieldnames row) db = (o1, db1)"
      by (cases "process_row now (dict_row fieldnames row) db")
    from process_row_keeps_settled[OF p "3.prems"(2)] have s1: "settled db1 k" .
    show ?thesis
    proof (cases o1)
      case Returned
      with 3 False p s1 show ?thesis by simp
    next
      case (Raised e)
      with "3.prems" False p s1 show ?thesis by simp
    qed
  qed
qed simp_all

lemma rows_loop_stable:
  "rows_loop now fn lines db = (out, db') \<Longrightarrow> rows_loop now' fn lines db' = (out, db')"
proof (induction now fn lines db rule: rows_loop.induct)
  case (3 now fieldnames row rest db)
  show ?case
  proof (cases "row = []")
    case True
    with 3 show ?thesis by simp
  next
    case False
    obtain o1 db1 where p: "process_row now (dict_row fieldnames row) db = (o1, db1)"
      by (cases "process_row now (dict_row fieldnames row) db")
    show ?thesis
    proof (cases o1)
      case Returned
      with "3.prems" False p have rest: "rows_loop now fieldnames rest db1 = (out, db')" by simp
      from p Returned have "settled db1 (row_get (dict_row fieldnames row) ''reg_no'')"
        using process_row_settles by blast
      from rows_loop_keeps_settled[OF rest this]
      have "process_row now' (dict_row fieldnames row) db' = (Returned, db')"
        by (rule settled_process_row)
      moreover from "3.IH"(2)[OF False p[symmetric] Returned rest]
      have "rows_loop now' fieldnames rest db' = (out, db')" .
      ultimately show ?thesis using False by simp
    next
      case (Raised e)
      with "3.prems" False p have "out = Raised e" "db' = db1" by simp_all
      with process_row_stable[OF p, of now'] Raised False show ?thesis by simp
    qed
  qed
qed simp_all

lemma dict_reader_stable:
  "dict_reader now lines db = (out, db') \<Longrightarrow> dict_reader now' lines db' = (out, db')"
  by (auto simp: dict_reader_def rows_loop_stable split: list.splits line.splits)

subsection \<open>The unique constraints are kept\<close>

lemma create_user_unique:
  assumes "create_user db key fname lname mail = Inr (u, db')" and "unique_constraints db"
  shows "unique_constraints db'"
  using create_user_result[OF assms(1)] assms(2)
  by (auto simp: unique_constraints_def)

lemma create_student_unique:
  assumes "create_student now db key usr fname lname mail dept lvl = Inr (s, db')"
      and "unique_constraints db"
  shows "unique_constraints db'"
  using create_student_result[OF assms(1)] assms(2)
  by (auto simp: unique_constraints_def)

lemma user_upsert_unique:
  assumes "user_get_or_create db key fname lname mail = (r, db')" and "unique_constraints db"
  shows "unique_constraints db'"
  using user_get_or_create_cases[OF assms(1)] assms(2)
  by (auto dest: create_user_unique)

lemma student_upsert_unique:
  assumes "student_get_or_create now db key usr fname lname mail dept lvl = (r, db')"
      and "unique_constraints db"
  shows "unique_constraints db'"
  using student_get_or_create_cases[OF assms(1)] assms(2)
  by (auto dest: create_student_unique)

lemma process_row_unique:
  assumes "process_row now row db = (out, db')" and "unique_constraints db"
  shows "unique_constraints db'"
  using process_row_cases[OF assms(1)] assms(2)
  by (auto dest: user_upsert_unique student_upsert_unique)

lemma rows_loop_unique:
  "rows_loop now fn lines db = (out, db') \<Longrightarrow> unique_constraints db \<Longrightarrow> unique_constraints db'"
proof (induction now fn lines db rule: rows_loop.induct)
  case (3 now fieldnames row rest db)
  show ?case
  proof (cases "row = []")
    case True
    with 3 show ?thesis by simp
  next
    case False
    obtain o1 db1 where p: "process_row now (dict_row fieldnames row) db = (o1, db1)"
      by (cases "process_row now (dict_row fieldnames row) db")
    from process_row_unique[OF p "3.prems"(2)] have u1: "unique_constraints db1" .
    show ?thesis
    proof (cases o1)
      case Returned
      with 3 False p u1 show ?thesis by simp
    next
      case (Raised e)
      with "3.prems" False p u1 show ?thesis by simp
    qed
  qed
qed simp_all

lemma dict_reader_unique:
  "dict_reader now lines db = (out, db') \<Longrightarrow> unique_constraints db \<Longrightarrow> unique_constraints db'"
  by (auto simp: dict_reader_def split: list.splits line.splits dest: rows_loop_unique)

subsection \<open>What an upsert that succeeds does\<close>

lemmas view_defs =
  accounts_def profiles_def account_fields_def profile_fields_def account_of_def

lemma too_long_same_engine:
  "enforces_max_length db' = enforces_max_length db \<Longrightarrow> too_long db' n v = too_long db n v"
  by (simp add: too_long_def)

lemma create_user_insertable:
  "create_user db key fname lname mail = Inr (u, db') \<Longrightarrow>
     \<not> too_long db 150 key \<and> \<not> too_long db 150 fname \<and> \<not> too_long db 150 lname
     \<and> \<not> too_long db 254 mail"
  by (auto simp: create_user_def split: if_splits)

lemma create_student_insertable:
  "create_student now db key usr fname lname mail dept lvl = Inr (s, db') \<Longrightarrow>
     \<not> too_long db 50 key \<and> \<not> too_long db 50 fname \<and> \<not> too_long db 50 lname
     \<and> \<not> too_long db 254 mail \<and> \<not> too_long db 120 dept \<and> \<not> too_long db 20 lvl"
  by (auto simp: create_student_def split: if_splits)

lemma user_upsert_effect:
  assumes "user_get_or_create db key fname lname mail = (Inr (u, c), db')"
  shows "key = Some (username u) \<and> students db' = students db
       \<and> enforces_max_length db' = enforces_max_length db
       \<and> u \<in> set (auth_users db')
       \<and> ((auth_users db' = auth_users db \<and> user_seq db' = user_seq db
            \<and> u \<in> set (auth_users db))
          \<or> (auth_users db' = auth_users db @ [u] \<and> user_seq db' = Suc (user_seq db)
              \<and> username u \<notin> set (map username (auth_users db))
              \<and> user_id u = user_seq db
              \<and> fname = Some (user_first_name u) \<and> lname = Some (user_last_name u)
              \<and> mail = Some (user_email u)
              \<and> \<not> too_long db 150 key \<and> \<not> too_long db 150 fname
              \<and> \<not> too_long db 150 lname \<and> \<not> too_long db 254 mail))"
  using user_get_or_create_cases[OF assms]
proof (elim disjE exE conjE)
  fix u' assume a: "Inr (u, c) = Inr (u', False)" "db' = db" "get_user db key = Inr u'"
  from a(3) have f: "filter (\<lambda>x. key = Some (username x)) (auth_users db) = [u']"
    by (simp add: get_user_cases)
  then have "u' \<in> set (filter (\<lambda>x. key = Some (username x)) (auth_users db))" by simp
  then have "u' \<in> set (auth_users db)" "key = Some (username u')" by auto
  with a show ?thesis by simp
next
  fix u' assume a: "Inr (u, c) = Inr (u', True)" "get_user db key = Inl DoesNotExist"
     "create_user db key fname lname mail = Inr (u', db')"
  from create_user_result[OF a(3)] create_user_insertable[OF a(3)] a(1)
  show ?thesis by auto
next
  fix e assume "Inr (u, c) = Inl e"
  then show ?thesis by simp
qed

lemma student_upsert_effect:
  assumes "student_get_or_create now db key usr fname lname mail dept lvl = (Inr (s, c), db')"
  shows "key = Some (reg_no s) \<and> auth_users db' = auth_users db
       \<and> user_seq db' = user_seq db
       \<and> enforces_max_length db' = enforces_max_length db
       \<and> ((students db' = students db \<and> s \<in> set (students db))
          \<or> (students db' = students db @ [s]
              \<and> reg_no s \<notin> set (map reg_no (students db))
              \<and> Some (user_id usr) \<notin> set (map user (students db))
              \<and> user s = Some (user_id usr)
              \<and> fname = Some (first_name s) \<and> lname = Some (last_name s) \<and> mail = email s
              \<and> dept = Some (department s) \<and> lvl = Some (level s)
              \<and> \<not> too_long db 50 key \<and> \<not> too_long db 50 fname \<and> \<not> too_long db 50 lname
              \<and> \<not> too_long db 254 mail \<and> \<not> too_long db 120 dept \<and> \<not> too_long db 20 lvl))"
  using student_get_or_create_cases[OF assms]
proof (elim disjE exE conjE)
  fix s' assume a: "Inr (s, c) = Inr (s', False)" "db' = db" "get_student db key = Inr s'"
  from a(3) have f: "filter (\<lambda>x. key = Some (reg_no x)) (students db) = [s']"
    by (simp add: get_student_cases)
  then have "s' \<in> set (filter (\<lambda>x. key = Some (reg_no x)) (students db))" by simp
  then have "s' \<in> set (students db)" "key = Some (reg_no s')" by auto
  with a show ?thesis by simp
next
  fix s' assume a: "Inr (s, c) = Inr (s', True)" "get_student db key = Inl DoesNotExist"
     "create_student now db key usr fname lname mail dept lvl = Inr (s', db')"
  from create_student_result[OF a(3)] create_student_insertable[OF a(3)] a(1)
  show ?thesis by auto
next
  fix e assume "Inr (s, c) = Inl e"
  then show ?thesis by simp
qed

lemma process_row_effect:
  assumes "process_row now row db = (Returned, db')"
  shows "\<exists>u s. row_get row ''reg_no'' = Some (username u) \<and> reg_no s = username u
       \<and> enforces_max_length db' = enforces_max_length db
       \<and> u \<in> set (auth_users db')
       \<and> ((auth_users db' = auth_users db \<and> user_seq db' = user_seq db
            \<and> u \<in> set (auth_users db))
          \<or> (auth_users db' = auth_users db @ [u] \<and> user_seq db' = Suc (user_seq db)
              \<and> username u \<notin> set (map username (auth_users db))
              \<and> user_id u = user_seq db
              \<and> row_get row ''first_name'' = Some (user_first_name u)
              \<and> row_get row ''last_name'' = Some (user_last_name u)
              \<and> row_get row ''email'' = Some (user_email u)
              \<and> user_insertable db row))
       \<and> ((students db' = students db \<and> s \<in> set (students db))
          \<or> (students db' = students db @ [s]
              \<and> reg_no s \<notin> set (map reg_no (students db))
              \<and> Some (user_id u) \<notin> set (map user (students db))
              \<and> user s = Some (user_id u)
              \<and> row_get row ''first_name'' = Some (first_name s)
              \<and> row_get row ''last_name'' = Some (last_name s)
              \<and> row_get row ''email'' = email s
              \<and> row_get_default row ''department'' '''' = Some (department s)
              \<and> row_get_default row ''level'' '''' = Some (level s)
              \<and> student_insertable db row))"
  using process_row_cases[OF assms]
proof (elim disjE exE conjE)
  fix u c db1 r
  assume a: "user_get_or_create db (row_get row ''reg_no'') (row_get row ''first_name'')
                 (row_get row ''last_name'') (row_get row ''email'') = (Inr (u, c), db1)"
       "student_get_or_create now db1 (row_get row ''reg_no'') u
                 (row_get row ''first_name'') (row_get row ''last_name'') (row_get row ''email'')
                 (row_get_default row ''department'' '''') (row_get_default row ''level'' '''')
                 = (r, db')"
       "case r of Inl e \<Rightarrow> Returned = Raised e \<and> db' = db1 | Inr _ \<Rightarrow> Returned = Returned"
  from a(3) obtain s c' where r: "r = Inr (s, c')" by (cases r) auto
  note ue = user_upsert_effect[OF a(1)]
  note se = student_upsert_effect[OF a(2)[unfolded r]]
  from ue have eng: "enforces_max_length db1 = enforces_max_length db" by simp
  have tl: "too_long db1 n v = too_long db n v" for n v
    using eng by (rule too_long_same_engine)
  have k: "row_get row ''reg_no'' = Some (username u)" "reg_no s = username u"
    using ue se by auto
  have e1: "enforces_max_length db' = enforces_max_length db" using ue se by simp
  have u_in: "u \<in> set (auth_users db')" using ue se by simp
  have upart: "(auth_users db' = auth_users db \<and> user_seq db' = user_seq db
            \<and> u \<in> set (auth_users db))
          \<or> (auth_users db' = auth_users db @ [u] \<and> user_seq db' = Suc (user_seq db)
              \<and> username u \<notin> set (map username (auth_users db))
              \<and> user_id u = user_seq db
              \<and> row_get row ''first_name'' = Some (user_first_name u)
              \<and> row_get row ''last_name'' = Some (user_last_name u)
              \<and> row_get row ''email'' = Some (user_email u)
              \<and> user_insertable db row)"
    using ue se by (auto simp: user_insertable_def)
  have spart: "(students db' = students db \<and> s \<in> set (students db))
          \<or> (students db' = students db @ [s]
              \<and> reg_no s \<notin> set (map reg_no (students db))
              \<and> Some (user_id u) \<notin> set (map user (students db))
              \<and> user s = Some (user_id u)
              \<and> row_get row ''first_name'' = Some (first_name s)
              \<and> row_get row ''last_name'' = Some (last_name s)
              \<and> row_get row ''email'' = email s
              \<and> row_get_default row ''department'' '''' = Some (department s)
              \<and> row_get_default row ''level'' '''' = Some (level s)
              \<and> student_insertable db row)"
    using se ue unfolding tl by (auto simp: student_insertable_def)
  from k e1 u_in upart spart show ?thesis by blast
qed simp

subsection \<open>Consistency is kept\<close>

lemma user_upsert_consistent:
  assumes "user_get_or_create db key fname lname mail = (r, db')" and "consistent db"
  shows "consistent db'"
proof (cases r)
  case (Inl e)
  with assms show ?thesis by (auto dest: user_failure_keeps_db)
next
  case (Inr p)
  obtain u c where p: "p = (u, c)" by (cases p)
  note e = user_upsert_effect[OF assms(1)[unfolded Inr p]]
  note uq = user_upsert_unique[OF assms(1)]
  from e show ?thesis
  proof (elim conjE disjE)
    assume "auth_users db' = auth_users db" "user_seq db' = user_seq db"
      "students db' = students db"
    with assms(2) uq show ?thesis by (simp add: consistent_def)
  next
    assume n: "auth_users db' = auth_users db @ [u]" "user_seq db' = Suc (user_seq db)"
      "user_id u = user_seq db" "students db' = students db"
    from assms(2) have lt: "\<forall>x\<in>set (auth_users db). user_id x < user_seq db"
      and d: "distinct (map user_id (auth_users db))"
      and fk: "set (map user (students db))
                 \<subseteq> insert None (Some ` set (map user_id (auth_users db)))"
      by (simp_all add: consistent_def)
    from lt have fresh: "user_seq db \<notin> set (map user_id (auth_users db))" by auto
    have 1: "distinct (map user_id (auth_users db'))" using n d fresh by simp
    have 2: "\<forall>x\<in>set (auth_users db'). user_id x < user_seq db'"
      using n lt by (auto simp: less_Suc_eq)
    have 3: "set (map user (students db'))
               \<subseteq> insert None (Some ` set (map user_id (auth_users db')))"
      using n fk by auto
    from uq[OF assms(2)[unfolded consistent_def, THEN conjunct1]] 1 2 3
    show ?thesis by (simp add: consistent_def)
  qed
qed

lemma student_upsert_consistent:
  assumes "student_get_or_create now db key usr fname lname mail dept lvl = (r, db')"
      and "consistent db" and "usr \<in> set (auth_users db)"
  shows "consistent db'"
proof (cases r)
  case (Inl e)
  with assms show ?thesis by (auto dest: student_failure_keeps_db)
next
  case (Inr p)
  obtain s c where p: "p = (s, c)" by (cases p)
  note e = student_upsert_effect[OF assms(1)[unfolded Inr p]]
  note uq = student_upsert_unique[OF assms(1)]
  from assms(2) have lt: "\<forall>x\<in>set (auth_users db). user_id x < user_seq db"
    and d: "distinct (map user_id (auth_users db))"
    and fk: "set (map user (students db))
               \<subseteq> insert None (Some ` set (map user_id (auth_users db)))"
    and u: "unique_constraints db"
    by (simp_all add: consistent_def)
  from e have same: "auth_users db' = auth_users db" "user_seq db' = user_seq db" by simp_all
  have 3: "set (map user (students db'))
             \<subseteq> insert None (Some ` set (map user_id (auth_users db')))"
    using e
  proof (elim conjE disjE)
    assume "students db' = students db"
    with fk same show ?thesis by simp
  next
    assume "students db' = students db @ [s]" "user s = Some (user_id usr)"
    with fk same assms(3) show ?thesis by auto
  qed
  from uq[OF u] d lt 3 same show ?thesis by (simp add: consistent_def)
qed

lemma process_row_consistent:
  assumes "process_row now row db = (out, db')" and "consistent db"
  shows "consistent db'"
  using process_row_cases[OF assms(1)]
proof (elim disjE exE conjE)
  fix e assume "db' = db"
  with assms(2) show ?thesis by simp
next
  fix u c db1 r
  assume a: "user_get_or_create db (row_get row ''reg_no'') (row_get row ''first_name'')
                 (row_get row ''last_name'') (row_get row ''email'') = (Inr (u, c), db1)"
       "student_get_or_create now db1 (row_get row ''reg_no'') u
                 (row_get row ''first_name'') (row_get row ''last_name'') (row_get row ''email'')
                 (row_get_default row ''department'' '''') (row_get_default row ''level'' '''')
                 = (r, db')"
  from user_upsert_consistent[OF a(1) assms(2)] have c1: "consistent db1" .
  from user_upsert_effect[OF a(1)] have "u \<in> set (auth_users db1)" by simp
  from student_upsert_consistent[OF a(2) c1 this] show ?thesis .
qed

lemma fresh_key_unreferenced:
  assumes "consistent db"
  shows "Some (user_seq db) \<notin> set (map user (students db))"
proof
  assume "Some (user_seq db) \<in> set (map user (students db))"
  with assms have "Some (user_seq db) \<in> Some ` set (map user_id (auth_users db))"
    by (auto simp: consistent_def)
  then have "user_seq db \<in> set (map user_id (auth_users db))" by auto
  with assms show False by (auto simp: consistent_def)
qed

subsection \<open>Which rows go through\<close>

lemma user_upsert_returns:
  assumes "distinct (map username (auth_users db))"
      and "k \<in> set (map username (auth_users db))
           \<or> (\<not> too_long db 150 (Some k) \<and> \<not> too_long db 150 fname \<and> \<not> too_long db 150 lname
               \<and> \<not> too_long db 254 mail \<and> fname \<noteq> None \<and> lname \<noteq> None \<and> mail \<noteq> None)"
  shows "\<exists>u c db'. user_get_or_create db (Some k) fname lname mail = (Inr (u, c), db')"
proof (cases "k \<in> set (map username (auth_users db))")
  case True
  then obtain u where u: "u \<in> set (auth_users db)" "username u = k" by auto
  from filter_key_unique[OF assms(1) u(1)] u(2)
  have "filter (\<lambda>y. Some k = Some (username y)) (auth_users db) = [u]" by simp
  from user_hit[OF this] show ?thesis by blast
next
  case False
  then have "filter (\<lambda>y. Some k = Some (username y)) (auth_users db) = []"
    by (auto simp: filter_empty_conv)
  then have g: "get_user db (Some k) = Inl DoesNotExist" by (simp add: get_user_cases)
  from False assms(2) obtain f l m where v: "fname = Some f" "lname = Some l" "mail = Some m"
    by auto
  from False assms(2) v show ?thesis
    by (auto simp: user_get_or_create_def g create_user_def Let_def)
qed

lemma student_upsert_returns:
  assumes "distinct (map reg_no (students db))"
      and "k \<in> set (map reg_no (students db))
           \<or> (\<not> too_long db 50 (Some k) \<and> \<not> too_long db 50 fname \<and> \<not> too_long db 50 lname
               \<and> \<not> too_long db 254 mail \<and> \<not> too_long db 120 dept \<and> \<not> too_long db 20 lvl
               \<and> fname \<noteq> None \<and> lname \<noteq> None \<and> dept \<noteq> None \<and> lvl \<noteq> None
               \<and> Some (user_id usr) \<notin> set (map user (students db)))"
  shows "\<exists>s c db'. student_get_or_create now db (Some k) usr fname lname mail dept lvl
                     = (Inr (s, c), db')"
proof (cases "k \<in> set (map reg_no (students db))")
  case True
  then obtain s where s: "s \<in> set (students db)" "reg_no s = k" by auto
  from filter_key_unique[OF assms(1) s(1)] s(2)
  have "filter (\<lambda>y. Some k = Some (reg_no y)) (students db) = [s]" by simp
  from student_hit[OF this] show ?thesis by blast
next
  case False
  then have "filter (\<lambda>y. Some k = Some (reg_no y)) (students db) = []"
    by (auto simp: filter_empty_conv)
  then have g: "get_student db (Some k) = Inl DoesNotExist" by (simp add: get_student_cases)
  from False assms(2) obtain f l d v where v: "fname = Some f" "lname = Some l"
      "dept = Some d" "lvl = Some v"
    by auto
  from False assms(2) v show ?thesis
    by (auto simp: student_get_or_create_def g create_student_def Let_def)
qed

lemma row_ok_returns:
  assumes "consistent db" and "row_ok db row"
  shows "fst (process_row now row db) = Returned"
proof -
  from assms(2) obtain k where k: "row_get row ''reg_no'' = Some k"
    by (auto simp: row_ok_def split: option.splits)
  from assms(2) k have
    up: "k \<in> set (map username (auth_users db)) \<or> user_insertable db row" and
    sp: "k \<in> set (map reg_no (students db))
          \<or> (student_insertable db row
              \<and> (\<forall>u\<in>set (auth_users db).
                    username u = k \<longrightarrow> Some (user_id u) \<notin> set (map user (students db))))"
    by (simp_all add: row_ok_def)
  from assms(1) have du: "distinct (map username (auth_users db))"
    and ds: "distinct (map reg_no (students db))"
    by (simp_all add: consistent_def unique_constraints_def)
  from up k have "k \<in> set (map username (auth_users db))
           \<or> (\<not> too_long db 150 (Some k) \<and> \<not> too_long db 150 (row_get row ''first_name'')
               \<and> \<not> too_long db 150 (row_get row ''last_name'')
               \<and> \<not> too_long db 254 (row_get row ''email'')
               \<and> row_get row ''first_name'' \<noteq> None \<and> row_get row ''last_name'' \<noteq> None
               \<and> row_get row ''email'' \<noteq> None)"
    by (auto simp: user_insertable_def)
  from user_upsert_returns[OF du this] obtain u c db1 where
    u: "user_get_or_create db (Some k) (row_get row ''first_name'') (row_get row ''last_name'')
          (row_get row ''email'') = (Inr (u, c), db1)" by blast
  note ue = user_upsert_effect[OF u]
  from ue have eng: "enforces_max_length db1 = enforces_max_length db"
    and st: "students db1 = students db" and uk: "username u = k" by simp_all
  have tl: "too_long db1 n v = too_long db n v" for n v
    using eng by (rule too_long_same_engine)
  have unref: "Some (user_id u) \<notin> set (map user (students db))"
    if "k \<notin> set (map reg_no (students db))"
    using ue
  proof (elim conjE disjE)
    assume "u \<in> set (auth_users db)"
    with sp that uk show ?thesis by auto
  next
    assume "user_id u = user_seq db"
    with fresh_key_unreferenced[OF assms(1)] show ?thesis by simp
  qed
  have "k \<in> set (map reg_no (students db1))
           \<or> (\<not> too_long db1 50 (Some k) \<and> \<not> too_long db1 50 (row_get row ''first_name'')
               \<and> \<not> too_long db1 50 (row_get row ''last_name'')
               \<and> \<not> too_long db1 254 (row_get row ''email'')
               \<and> \<not> too_long db1 120 (row_get_default row ''department'' '''')
               \<and> \<not> too_long db1 20 (row_get_default row ''level'' '''')
               \<and> row_get row ''first_name'' \<noteq> None \<and> row_get row ''last_name'' \<noteq> None
               \<and> row_get_default row ''department'' '''' \<noteq> None
               \<and> row_get_default row ''level'' '''' \<noteq> None
               \<and> Some (user_id u) \<notin> set (map user (students db1)))"
    using sp unref k unfolding tl st by (auto simp: student_insertable_def)
  from student_upsert_returns[OF ds[folded st] this] obtain s c' db2 where
    "student_get_or_create now db1 (Some k) u (row_get row ''first_name'')
       (row_get row ''last_name'') (row_get row ''email'')
       (row_get_default row ''department'' '''') (row_get_default row ''level'' '''')
     = (Inr (s, c'), db2)" by blast
  with u k show ?thesis by (simp add: process_row_def)
qed

lemma returns_row_ok:
  assumes "consistent db" and "process_row now row db = (Returned, db')"
  shows "row_ok db row"
proof -
  from process_row_effect[OF assms(2)] obtain u s where
    k: "row_get row ''reg_no'' = Some (username u)" and
    up: "(auth_users db' = auth_users db \<and> u \<in> set (auth_users db))
          \<or> (username u \<notin> set (map username (auth_users db)) \<and> user_insertable db row)" and
    sp: "(students db' = students db \<and> s \<in> set (students db) \<and> reg_no s = username u)
          \<or> (Some (user_id u) \<notin> set (map user (students db)) \<and> student_insertable db row)"
    by blast
  from assms(1) have du: "distinct (map username (auth_users db))"
    by (simp add: consistent_def unique_constraints_def)
  have 1: "username u \<in> set (map username (auth_users db)) \<or> user_insertable db row"
    using up by auto
  have 2: "username u \<in> set (map reg_no (students db))
          \<or> (student_insertable db row
              \<and> (\<forall>x\<in>set (auth_users db).
                    username x = username u \<longrightarrow> Some (user_id x) \<notin> set (map user (students db))))"
    using sp
  proof (elim disjE conjE)
    assume "s \<in> set (students db)" "reg_no s = username u"
    then show ?thesis by force
  next
    assume n: "Some (user_id u) \<notin> set (map user (students db))" "student_insertable db row"
    have "Some (user_id x) \<notin> set (map user (students db))"
      if x: "x \<in> set (auth_users db)" "username x = username u" for x
      using up
    proof (elim disjE conjE)
      assume "u \<in> set (auth_users db)"
      with x du have "x = u" by (auto simp: distinct_map dest: inj_onD)
      with n show ?thesis by simp
    next
      assume nu: "username u \<notin> set (map username (auth_users db))"
      from x(1) have "username x \<in> set (map username (auth_users db))" by simp
      with x(2) nu show ?thesis by simp
    qed
    with n show ?thesis by blast
  qed
  from k 1 2 show ?thesis by (simp add: row_ok_def)
qed

lemma row_ok_iff:
  assumes "consistent db"
  shows "(fst (process_row now row db) = Returned) = row_ok db row"
proof
  assume "fst (process_row now row db) = Returned"
  then obtain db' where "process_row now row db = (Returned, db')"
    by (cases "process_row now row db") auto
  from returns_row_ok[OF assms this] show "row_ok db row" .
next
  assume "row_ok db row"
  from row_ok_returns[OF assms this] show "fst (process_row now row db) = Returned" .
qed

lemma distinct_ids_differ:
  assumes "distinct (map f xs)" and "x \<in> set xs" and "y \<in> set xs" and "x \<noteq> y"
  shows "f x \<noteq> f y"
  using assms by (auto simp: distinct_map dest: inj_onD)

lemma row_ok_step:
  assumes "consistent db" and "process_row now row db = (Returned, db1)"
      and "row_get row' ''reg_no'' \<noteq> row_get row ''reg_no''"
  shows "row_ok db1 row' = row_ok db row'"
proof (cases "row_get row' ''reg_no''")
  case None
  then show ?thesis by (simp add: row_ok_def)
next
  case (Some k')
  from process_row_consistent[OF assms(2,1)] have c1: "consistent db1" .
  then have d1: "distinct (map user_id (auth_users db1))" by (simp add: consistent_def)
  from process_row_effect[OF assms(2)] obtain u s where
    k: "row_get row ''reg_no'' = Some (username u)" "reg_no s = username u" and
    eng: "enforces_max_length db1 = enforces_max_length db" and
    u_in: "u \<in> set (auth_users db1)" and
    up: "auth_users db1 = auth_users db \<or> auth_users db1 = auth_users db @ [u]" and
    sp: "students db1 = students db
         \<or> (students db1 = students db @ [s] \<and> user s = Some (user_id u))"
    by blast
  from assms(3) Some k have ne: "k' \<noteq> username u" by simp
  have tl: "too_long db1 n v = too_long db n v" for n v
    using eng by (rule too_long_same_engine)
  have A: "k' \<in> set (map username (auth_users db1)) \<longleftrightarrow> k' \<in> set (map username (auth_users db))"
    using up ne by auto
  have B: "user_insertable db1 row' = user_insertable db row'"
    by (simp add: user_insertable_def tl)
  have C: "k' \<in> set (map reg_no (students db1)) \<longleftrightarrow> k' \<in> set (map reg_no (students db))"
    using sp ne k by auto
  have D: "student_insertable db1 row' = student_insertable db row'"
    by (simp add: student_insertable_def tl)
  have same_users: "x \<in> set (auth_users db1) \<longleftrightarrow> x \<in> set (auth_users db)"
    if "username x = k'" for x
    using up ne that by auto
  have refs: "Some (user_id x) \<in> set (map user (students db1))
                \<longleftrightarrow> Some (user_id x) \<in> set (map user (students db))"
    if x: "x \<in> set (auth_users db1)" "username x = k'" for x
  proof -
    from x ne have "x \<noteq> u" by auto
    from distinct_ids_differ[OF d1 x(1) u_in this] have "user_id x \<noteq> user_id u" .
    with sp show ?thesis by auto
  qed
  have E: "(\<forall>x\<in>set (auth_users db1).
              username x = k' \<longrightarrow> Some (user_id x) \<notin> set (map user (students db1)))
         \<longleftrightarrow> (\<forall>x\<in>set (auth_users db).
              username x = k' \<longrightarrow> Some (user_id x) \<notin> set (map user (students db)))"
    using same_users refs by blast
  show ?thesis unfolding row_ok_def Some option.case A B C D E ..
qed

lemma line_ok_step:
  assumes "consistent db" and "process_row now row db = (Returned, db1)"
      and "is_data l \<longrightarrow> line_key fieldnames l \<noteq> row_get row ''reg_no''"
  shows "line_ok fieldnames db1 l = line_ok fieldnames db l"
proof (cases l)
  case (Record r)
  show ?thesis
  proof (cases "r = []")
    case True
    with Record show ?thesis by (simp add: line_ok_def)
  next
    case False
    with Record assms(3) have "row_get (dict_row fieldnames r) ''reg_no'' \<noteq> row_get row ''reg_no''"
      by (simp add: is_data_def line_key_def)
    from row_ok_step[OF assms(1,2) this] Record show ?thesis by (simp add: line_ok_def)
  qed
next
  case (Raise e)
  then show ?thesis by (simp add: line_ok_def)
qed

lemma batch_keys_Cons:
  "batch_keys fieldnames (Record row # rest) =
     (if row = [] then batch_keys fieldnames rest
      else row_get (dict_row fieldnames row) ''reg_no'' # batch_keys fieldnames rest)"
  "batch_keys fieldnames (Raise e # rest) = batch_keys fieldnames rest"
  by (simp_all add: batch_keys_def is_data_def line_key_def)

lemma line_key_in_batch:
  "l \<in> set lines \<Longrightarrow> is_data l \<Longrightarrow> line_key fieldnames l \<in> set (batch_keys fieldnames lines)"
  by (simp add: batch_keys_def)

lemma batch_keys_mset:
  "mset lines' = mset lines \<Longrightarrow> mset (batch_keys fieldnames lines') = mset (batch_keys fieldnames lines)"
  by (simp add: batch_keys_def)

lemma rows_loop_returns_iff:
  assumes "consistent db" and "distinct (batch_keys fieldnames lines)"
  shows "(fst (rows_loop now fieldnames lines db) = Returned)
           = (\<forall>l\<in>set lines. line_ok fieldnames db l)"
  using assms
proof (induction lines arbitrary: db)
  case Nil
  then show ?case by simp
next
  case (Cons l rest)
  show ?case
  proof (cases l)
    case (Raise e)
    then show ?thesis by (simp add: line_ok_def)
  next
    case (Record row)
    show ?thesis
    proof (cases "row = []")
      case True
      with Record Cons.prems have "distinct (batch_keys fieldnames rest)"
        by (simp add: batch_keys_Cons)
      from Cons.IH[OF Cons.prems(1) this] True Record show ?thesis
        by (simp add: line_ok_def)
    next
      case False
      let ?d = "dict_row fieldnames row"
      from Record False Cons.prems have
        fresh: "row_get ?d ''reg_no'' \<notin> set (batch_keys fieldnames rest)" and
        dist: "distinct (batch_keys fieldnames rest)"
        by (simp_all add: batch_keys_Cons)
      obtain out db1 where p: "process_row now ?d db = (out, db1)"
        by (cases "process_row now ?d db")
      show ?thesis
      proof (cases out)
        case Returned
        with p row_ok_iff[OF Cons.prems(1), of now ?d] have ok: "row_ok db ?d" by simp
        from process_row_consistent[OF p Cons.prems(1)] have c1: "consistent db1" .
        have same: "line_ok fieldnames db1 l' = line_ok fieldnames db l'" if "l' \<in> set rest" for l'
        proof (rule line_ok_step[OF Cons.prems(1) p[unfolded Returned]])
          show "is_data l' \<longrightarrow> line_key fieldnames l' \<noteq> row_get ?d ''reg_no''"
            using line_key_in_batch[OF that, of fieldnames] fresh by metis
        qed
        from Cons.IH[OF c1 dist]
        have "(fst (rows_loop now fieldnames rest db1) = Returned)
                = (\<forall>l\<in>set rest. line_ok fieldnames db l)"
          using same by simp
        with Record False p Returned ok show ?thesis by (simp add: line_ok_def)
      next
        case (Raised e)
        with p row_ok_iff[OF Cons.prems(1), of now ?d] have "\<not> row_ok db ?d" by simp
        with Record False p Raised show ?thesis by (simp add: line_ok_def)
      qed
    qed
  qed
qed

subsection \<open>What a completed run adds\<close>

lemma find_by_key:
  "distinct (map f xs) \<Longrightarrow> x \<in> set xs \<Longrightarrow> find (\<lambda>y. f y = f x) xs = Some x"
proof (induction xs)
  case Nil
  then show ?case by simp
next
  case (Cons a xs)
  show ?case
  proof (cases "a = x")
    case True
    then show ?thesis by simp
  next
    case False
    with Cons.prems have "x \<in> set xs" by simp
    with Cons.prems have "f a \<noteq> f x" by (metis distinct.simps(2) image_eqI list.simps(9) set_map)
    with Cons \<open>x \<in> set xs\<close> show ?thesis by simp
  qed
qed

lemma find_append_found:
  "i \<in> set (map f xs) \<Longrightarrow> find (\<lambda>y. f y = i) (xs @ ys) = find (\<lambda>y. f y = i) xs"
  by (induction xs) auto

lemma account_of_kept:
  assumes "consistent db" and "s0 \<in> set (students db)"
      and "auth_users db1 = auth_users db \<or> auth_users db1 = auth_users db @ [u]"
  shows "account_of db1 s0 = account_of db s0"
proof (cases "user s0")
  case None
  then show ?thesis by (simp add: account_of_def)
next
  case (Some i)
  with assms(1,2) have "i \<in> set (map user_id (auth_users db))"
    by (force simp: consistent_def)
  from find_append_found[OF this, of "[u]"] assms(3) Some show ?thesis
    by (auto simp: account_of_def)
qed

lemma process_row_accounts:
  assumes "process_row now row db = (Returned, db1)"
  shows "accounts db1 = accounts db
           \<union> (if row_get row ''reg_no'' \<in> Some ` set (map username (auth_users db)) then {}
              else {row_account row})"
    and "Some ` set (map username (auth_users db1))
           = insert (row_get row ''reg_no'') (Some ` set (map username (auth_users db)))"
proof -
  from process_row_effect[OF assms] obtain u s where
    k: "row_get row ''reg_no'' = Some (username u)" and
    up: "(auth_users db1 = auth_users db \<and> u \<in> set (auth_users db))
          \<or> (auth_users db1 = auth_users db @ [u]
              \<and> username u \<notin> set (map username (auth_users db))
              \<and> row_get row ''first_name'' = Some (user_first_name u)
              \<and> row_get row ''last_name'' = Some (user_last_name u)
              \<and> row_get row ''email'' = Some (user_email u))"
    by blast
  from up show "accounts db1 = accounts db
           \<union> (if row_get row ''reg_no'' \<in> Some ` set (map username (auth_users db)) then {}
              else {row_account row})"
  proof (elim disjE conjE)
    assume "auth_users db1 = auth_users db" "u \<in> set (auth_users db)"
    with k show ?thesis by (auto simp: accounts_def)
  next
    assume n: "auth_users db1 = auth_users db @ [u]"
      "username u \<notin> set (map username (auth_users db))"
      "row_get row ''first_name'' = Some (user_first_name u)"
      "row_get row ''last_name'' = Some (user_last_name u)"
      "row_get row ''email'' = Some (user_email u)"
    from n k have "row_account row = account_fields u"
      by (simp add: row_account_def account_fields_def)
    moreover from n(2) k
    have "row_get row ''reg_no'' \<notin> Some ` set (map username (auth_users db))" by auto
    ultimately show ?thesis using n(1) by (simp add: accounts_def)
  qed
  from up k show "Some ` set (map username (auth_users db1))
           = insert (row_get row ''reg_no'') (Some ` set (map username (auth_users db)))"
    by auto
qed

lemma process_row_profiles:
  assumes "consistent db" and "process_row now row db = (Returned, db1)"
  shows "profiles db1 = profiles db
           \<union> (if row_get row ''reg_no'' \<in> Some ` set (map reg_no (students db)) then {}
              else {row_profile row})"
    and "Some ` set (map reg_no (students db1))
           = insert (row_get row ''reg_no'') (Some ` set (map reg_no (students db)))"
proof -
  from process_row_consistent[OF assms(2,1)] have c1: "consistent db1" .
  then have d1: "distinct (map user_id (auth_users db1))" by (simp add: consistent_def)
  from process_row_effect[OF assms(2)] obtain u s where
    k: "row_get row ''reg_no'' = Some (username u)" "reg_no s = username u" and
    u_in: "u \<in> set (auth_users db1)" and
    up: "auth_users db1 = auth_users db \<or> auth_users db1 = auth_users db @ [u]" and
    sp: "(students db1 = students db \<and> s \<in> set (students db))
          \<or> (students db1 = students db @ [s]
              \<and> reg_no s \<notin> set (map reg_no (students db))
              \<and> user s = Some (user_id u)
              \<and> row_get row ''first_name'' = Some (first_name s)
              \<and> row_get row ''last_name'' = Some (last_name s)
              \<and> row_get row ''email'' = email s
              \<and> row_get_default row ''department'' '''' = Some (department s)
              \<and> row_get_default row ''level'' '''' = Some (level s))"
    by blast
  have old: "profile_fields db1 s0 = profile_fields db s0" if "s0 \<in> set (students db)" for s0
    using account_of_kept[OF assms(1) that up] by (simp add: profile_fields_def)
  then have old_set: "profile_fields db1 ` set (students db) = profile_fields db ` set (students db)"
    by (auto intro!: image_cong)
  from sp show "profiles db1 = profiles db
           \<union> (if row_get row ''reg_no'' \<in> Some ` set (map reg_no (students db)) then {}
              else {row_profile row})"
  proof (elim disjE conjE)
    assume h: "students db1 = students db" "s \<in> set (students db)"
    from h(2) k have "row_get row ''reg_no'' \<in> Some ` set (map reg_no (students db))" by force
    with h(1) old_set show ?thesis by (simp add: profiles_def)
  next
    assume n: "students db1 = students db @ [s]"
      "reg_no s \<notin> set (map reg_no (students db))"
      "user s = Some (user_id u)"
      "row_get row ''first_name'' = Some (first_name s)"
      "row_get row ''last_name'' = Some (last_name s)"
      "row_get row ''email'' = email s"
      "row_get_default row ''department'' '''' = Some (department s)"
      "row_get_default row ''level'' '''' = Some (level s)"
    from find_by_key[OF d1 u_in] n(3) have "account_of db1 s = Some (username u)"
      by (simp add: account_of_def)
    with n k have new: "profile_fields db1 s = row_profile row"
      by (simp add: row_profile_def profile_fields_def)
    from n(2) k
    have "row_get row ''reg_no'' \<notin> Some ` set (map reg_no (students db))" by auto
    with n(1) new old_set show ?thesis by (simp add: profiles_def)
  qed
  from sp show "Some ` set (map reg_no (students db1))
           = insert (row_get row ''reg_no'') (Some ` set (map reg_no (students db)))"
  proof (elim disjE conjE)
    assume h: "students db1 = students db" "s \<in> set (students db)"
    from h(2) k have "row_get row ''reg_no'' \<in> Some ` set (map reg_no (students db))" by force
    with h(1) show ?thesis by auto
  next
    assume "students db1 = students db @ [s]"
    with k show ?thesis by auto
  qed
qed

lemma rows_loop_content:
  assumes "consistent db" and "distinct (batch_keys fieldnames lines)"
      and "rows_loop now fieldnames lines db = (Returned, db')"
  shows "accounts db' = accounts db
           \<union> {row_account (dict_row fieldnames row) | row.
                Record row \<in> set lines \<and> row \<noteq> []
                \<and> row_get (dict_row fieldnames row) ''reg_no''
                     \<notin> Some ` set (map username (auth_users db))}
       \<and> profiles db' = profiles db
           \<union> {row_profile (dict_row fieldnames row) | row.
                Record row \<in> set lines \<and> row \<noteq> []
                \<and> row_get (dict_row fieldnames row) ''reg_no''
                     \<notin> Some ` set (map reg_no (students db))}"
  using assms
proof (induction lines arbitrary: db)
  case Nil
  then show ?case by simp
next
  case (Cons l rest)
  show ?case
  proof (cases l)
    case (Raise e)
    with Cons.prems show ?thesis by simp
  next
    case (Record row)
    show ?thesis
    proof (cases "row = []")
      case True
      with Record Cons.prems have "distinct (batch_keys fieldnames rest)"
        "rows_loop now fieldnames rest db = (Returned, db')"
        by (simp_all add: batch_keys_Cons)
      from Cons.IH[OF Cons.prems(1) this] True Record show ?thesis by auto
    next
      case False
      let ?d = "dict_row fieldnames row"
      let ?k = "row_get ?d ''reg_no''"
      from Record False Cons.prems have
        fresh: "?k \<notin> set (batch_keys fieldnames rest)" and
        dist: "distinct (batch_keys fieldnames rest)"
        by (simp_all add: batch_keys_Cons)
      have other: "row_get (dict_row fieldnames r) ''reg_no'' \<noteq> ?k"
        if "Record r \<in> set rest" "r \<noteq> []" for r
      proof -
        from that have "is_data (Record r)" by (simp add: is_data_def)
        from line_key_in_batch[OF that(1) this, of fieldnames] fresh
        show ?thesis by (auto simp: line_key_def)
      qed
      obtain out db1 where p: "process_row now ?d db = (out, db1)"
        by (cases "process_row now ?d db")
      with Record False Cons.prems(3) have out: "out = Returned"
        by (cases out) auto
      with Record False Cons.prems(3) p
      have rest: "rows_loop now fieldnames rest db1 = (Returned, db')" by simp
      note p' = p[unfolded out]
      from process_row_consistent[OF p' Cons.prems(1)] have c1: "consistent db1" .
      note IH = Cons.IH[OF c1 dist rest]
      note a = process_row_accounts[OF p']
      note b = process_row_profiles[OF Cons.prems(1) p']
      have A: "accounts db' = accounts db
           \<union> {row_account (dict_row fieldnames r) | r.
                Record r \<in> set (l # rest) \<and> r \<noteq> []
                \<and> row_get (dict_row fieldnames r) ''reg_no''
                     \<notin> Some ` set (map username (auth_users db))}"
        using IH[THEN conjunct1] Record False other unfolding a by auto
      have B: "profiles db' = profiles db
           \<union> {row_profile (dict_row fieldnames r) | r.
                Record r \<in> set (l # rest) \<and> r \<noteq> []
                \<and> row_get (dict_row fieldnames r) ''reg_no''
                     \<notin> Some ` set (map reg_no (students db))}"
        using IH[THEN conjunct2] Record False other unfolding b by auto
      from A B show ?thesis by blast
    qed
  qed
qed

section \<open>A failing account upsert (C1)\<close>

text \<open>
  C1, as the specification states it: when the account upsert of a row fails, the worker
  records the row as failed and goes on with the remaining rows. The task has no
  \<^verbatim>\<open>try\<close>: with a second record that carries only a \<^verbatim>\<open>reg_no\<close> (so that
  \<^verbatim>\<open>first_name\<close> is \<^verbatim>\<open>None\<close> and the insert into \<^verbatim>\<open>auth_user\<close> is refused) and
  a well-formed third record, the run ends in \<^verbatim>\<open>IntegrityError\<close> and the third record
  has left nothing in the database.
\<close>

theorem bad_row_stops_the_batch:
  "process_students_csv (\<lambda>i. 42)
     [''students.csv'' \<mapsto> [Record csv_header, Record [''S001''], Record bob]]
     ''students.csv'' empty_db
   = (Raised IntegrityError, empty_db)"
  by (simp add: model_defs example_defs)

text \<open>
  C1, amended: when the rows before a row have been processed and the account upsert of
  that row fails with an exception, the task ends with that exception at that row. The
  database is as the earlier rows left it, and whatever follows the row in the file is
  not processed.
\<close>

theorem account_failure_aborts:
  assumes "rows_loop now fieldnames before db = (Returned, db1)"
      and "row \<noteq> []"
      and "user_get_or_create db1 (row_get (dict_row fieldnames row) ''reg_no'')
             (row_get (dict_row fieldnames row) ''first_name'')
             (row_get (dict_row fieldnames row) ''last_name'')
             (row_get (dict_row fieldnames row) ''email'') = (Inl e, db2)"
  shows "dict_reader now (Record fieldnames # before @ Record row # after) db = (Raised e, db1)"
proof -
  from assms(3) have "db2 = db1" by (rule user_failure_keeps_db)
  with assms(3) have "process_row now (dict_row fieldnames row) db1 = (Raised e, db1)"
    by (simp add: process_row_def)
  with assms(1,2) show ?thesis
    by (simp add: dict_reader_def rows_loop_append)
qed

theorem account_failure_aborts_witness:
  "rows_loop (\<lambda>i. 42) csv_header [Record ada] empty_db = (Returned, ada_db 42)
   \<and> [''S002''] \<noteq> []
   \<and> user_get_or_create (ada_db 42) (row_get (dict_row csv_header [''S002'']) ''reg_no'')
        (row_get (dict_row csv_header [''S002'']) ''first_name'')
        (row_get (dict_row csv_header [''S002'']) ''last_name'')
        (row_get (dict_row csv_header [''S002'']) ''email'') = (Inl IntegrityError, ada_db 42)
   \<and> dict_reader (\<lambda>i. 42) (Record csv_header # [Record ada] @ Record [''S002''] # [Record bob])
        empty_db = (Raised IntegrityError, ada_db 42)"
proof -
  have 1: "rows_loop (\<lambda>i. 42) csv_header [Record ada] empty_db = (Returned, ada_db 42)"
    by (simp add: model_defs example_defs)
  have 2: "[''S002''] \<noteq> []" by simp
  have 3: "user_get_or_create (ada_db 42) (row_get (dict_row csv_header [''S002'']) ''reg_no'')
        (row_get (dict_row csv_header [''S002'']) ''first_name'')
        (row_get (dict_row csv_header [''S002'']) ''last_name'')
        (row_get (dict_row csv_header [''S002'']) ''email'') = (Inl IntegrityError, ada_db 42)"
    by (simp add: model_defs example_defs)
  from account_failure_aborts[OF 1 2 3, of "[Record bob]"] 1 2 3 show ?thesis by simp
qed

section \<open>Processing a file twice (C2)\<close>

text \<open>
  C2: running the task a second time on the same file, from the database the first run
  left, ends as the first run ended and leaves that database as it is: every row that
  went through finds its account and its profile and inserts nothing. (The clock of the
  second run may differ.) A database that satisfies the unique constraints satisfies them
  after the run; in particular no two profiles share a \<^verbatim>\<open>reg_no\<close>.
\<close>

theorem second_run_changes_nothing:
  "process_students_csv now' fs file_path (snd (process_students_csv now fs file_path db))
     = process_students_csv now fs file_path db
   \<and> (unique_constraints db \<longrightarrow>
        unique_constraints (snd (process_students_csv now fs file_path db))
        \<and> distinct (map reg_no (students (snd (process_students_csv now fs file_path db)))))"
proof (cases "fs file_path")
  case None
  then show ?thesis by (simp add: process_students_csv_def unique_constraints_def)
next
  case (Some lines)
  obtain out db' where r: "dict_reader now lines db = (out, db')"
    by (cases "dict_reader now lines db")
  from dict_reader_stable[OF r] have "dict_reader now' lines db' = (out, db')" .
  moreover have "unique_constraints db'" if "unique_constraints db"
    using dict_reader_unique[OF r that] .
  ultimately show ?thesis using Some r
    by (simp add: process_students_csv_def unique_constraints_def)
qed

theorem second_run_changes_nothing_witness:
  "process_students_csv (\<lambda>i. 99)
     [''students.csv'' \<mapsto> [Record csv_header, Record ada, Record ada_again]] ''students.csv''
     (snd (process_students_csv (\<lambda>i. 42)
        [''students.csv'' \<mapsto> [Record csv_header, Record ada, Record ada_again]]
        ''students.csv'' empty_db))
   = (Returned, ada_db 42)
   \<and> unique_constraints empty_db
   \<and> unique_constraints (ada_db 42)
   \<and> distinct (map reg_no (students (ada_db 42)))"
proof -
  have 1: "process_students_csv (\<lambda>i. 42)
        [''students.csv'' \<mapsto> [Record csv_header, Record ada, Record ada_again]]
        ''students.csv'' empty_db = (Returned, ada_db 42)"
    by (simp add: model_defs example_defs)
  have h: "unique_constraints empty_db"
    by (simp add: unique_constraints_def empty_db_def)
  from second_run_changes_nothing[of "\<lambda>i. 99"
         "[''students.csv'' \<mapsto> [Record csv_header, Record ada, Record ada_again]]"
         "''students.csv''" "\<lambda>i. 42" empty_db] h
  show ?thesis by (simp add: 1)
qed

section \<open>A hit leaves the row as it is (C3)\<close>

text \<open>
  C3: in a database that satisfies its unique constraints, an upsert whose key is that of
  a stored account returns that very row, reports that nothing was created and leaves the
  database unchanged, whatever the defaults passed with it; the same holds for a stored
  profile; and a row of the file whose \<^verbatim>\<open>reg_no\<close> has both its account and its profile
  goes through the loop body without any change to the database.
\<close>

theorem reuse_changes_nothing:
  assumes "unique_constraints db"
  shows "(u \<in> set (auth_users db) \<longrightarrow>
            user_get_or_create db (Some (username u)) fname lname mail = (Inr (u, False), db))
       \<and> (s \<in> set (students db) \<longrightarrow>
            student_get_or_create now db (Some (reg_no s)) usr fname lname mail dept lvl
              = (Inr (s, False), db))
       \<and> (u \<in> set (auth_users db) \<and> s \<in> set (students db)
            \<and> row_get row ''reg_no'' = Some (username u) \<and> reg_no s = username u \<longrightarrow>
            process_row now row db = (Returned, db))"
proof -
  have U: "filter (\<lambda>y. Some (username u) = Some (username y)) (auth_users db) = [u]"
    if "u \<in> set (auth_users db)"
    using assms that filter_key_unique[of username "auth_users db" u]
    by (simp add: unique_constraints_def)
  have S: "filter (\<lambda>y. Some (reg_no s) = Some (reg_no y)) (students db) = [s]"
    if "s \<in> set (students db)"
    using assms that filter_key_unique[of reg_no "students db" s]
    by (simp add: unique_constraints_def)
  show ?thesis
  proof (intro conjI impI)
    assume "u \<in> set (auth_users db)"
    then show "user_get_or_create db (Some (username u)) fname lname mail = (Inr (u, False), db)"
      using U user_hit by blast
  next
    assume "s \<in> set (students db)"
    then show "student_get_or_create now db (Some (reg_no s)) usr fname lname mail dept lvl
              = (Inr (s, False), db)"
      using S student_hit by blast
  next
    assume a: "u \<in> set (auth_users db) \<and> s \<in> set (students db)
            \<and> row_get row ''reg_no'' = Some (username u) \<and> reg_no s = username u"
    then have 1: "user_get_or_create db (Some (username u)) x y z = (Inr (u, False), db)" for x y z
      using U user_hit by blast
    from a have 2: "student_get_or_create now db (Some (username u)) usr' x y z v w
              = (Inr (s, False), db)" for usr' x y z v w
      using S student_hit[of "Some (reg_no s)" db s] by simp
    from a show "process_row now row db = (Returned, db)"
      by (simp add: process_row_def 1 2)
  qed
qed

theorem reuse_changes_nothing_witness:
  "unique_constraints (ada_db 42)
   \<and> user_get_or_create (ada_db 42) (Some ''S001'') (Some ''Ada'') (Some ''L'') (Some '''')
       = (Inr (ada_user, False), ada_db 42)
   \<and> student_get_or_create (\<lambda>i. 99) (ada_db 42) (Some ''S001'') ada_user (Some ''Ada'')
         (Some ''L'') (Some '''') (Some ''CS'') (Some ''300'')
       = (Inr (ada_student 42, False), ada_db 42)
   \<and> process_row (\<lambda>i. 99) (dict_row csv_header ada_again) (ada_db 42) = (Returned, ada_db 42)"
proof -
  have h: "unique_constraints (ada_db 42)"
    by (simp add: unique_constraints_def example_defs)
  show ?thesis
    using h reuse_changes_nothing[OF h, of ada_user "Some ''Ada''" "Some ''L''" "Some ''''"
            "ada_student 42" "\<lambda>i. 99" ada_user "Some ''CS''" "Some ''300''"
            "dict_row csv_header ada_again"]
    by (simp add: example_defs dict_row_def row_get_def)
qed

section \<open>A decoding error (C4)\<close>

text \<open>
  C4, as the specification states it: a file with malformed bytes aborts the job before
  any row is processed. The file is decoded block by block while the loop runs: when the
  fault lies after the first data record, that record has been processed, and its account
  and profile are in the database when \<^verbatim>\<open>UnicodeDecodeError\<close> ends the task.
\<close>

theorem late_decode_error_keeps_rows:
  "process_students_csv (\<lambda>i. 42)
     [''students.csv'' \<mapsto> [Record csv_header, Record ada, Raise UnicodeDecodeError]]
     ''students.csv'' empty_db
   = (Raised UnicodeDecodeError, ada_db 42)"
  by (simp add: model_defs example_defs)

text \<open>
  C4, amended: an exception of the reader ends the task where it is met. Met at the
  header or right after it, it leaves the database untouched; met later, the database is
  as the records before it left it (or the task has already ended at one of them), and no
  record after it is processed.
\<close>

theorem decode_error_aborts:
  "dict_reader now (Raise e # rest) db = (Raised e, db)
   \<and> dict_reader now (Record fieldnames # Raise e # rest) db = (Raised e, db)
   \<and> dict_reader now (Record fieldnames # before @ Raise e # after) db =
       (case rows_loop now fieldnames before db of
          (Returned, db') \<Rightarrow> (Raised e, db')
        | (Raised e', db') \<Rightarrow> (Raised e', db'))"
  by (simp add: dict_reader_def rows_loop_append split: prod.splits outcome.splits)

theorem decode_error_aborts_witness:
  "dict_reader (\<lambda>i. 42) (Raise UnicodeDecodeError # [Record csv_header, Record ada]) empty_db
     = (Raised UnicodeDecodeError, empty_db)
   \<and> dict_reader (\<lambda>i. 42) (Record csv_header # Raise UnicodeDecodeError # [Record ada]) empty_db
     = (Raised UnicodeDecodeError, empty_db)
   \<and> dict_reader (\<lambda>i. 42) (Record csv_header # [Record ada] @ Raise UnicodeDecodeError # [Record bob])
        empty_db
     = (Raised UnicodeDecodeError, ada_db 42)"
proof -
  have 1: "rows_loop (\<lambda>i. 42) csv_header [Record ada] empty_db = (Returned, ada_db 42)"
    by (simp add: model_defs example_defs)
  from decode_error_aborts[of "\<lambda>i. 42" UnicodeDecodeError "[Record csv_header, Record ada]"
         empty_db csv_header "[Record ada]" "[Record bob]"]
  show ?thesis by (simp add: model_defs example_defs)
qed

section \<open>The status of a finished job (C5)\<close>

text \<open>
  C5, as the specification states it: the worker produces a report with counters, and the
  status view returns it for a finished job. The task returns \<^verbatim>\<open>None\<close> and the view
  answers with the task id and the state only: after a run over a header and one record,
  the body is \<^verbatim>\<open>task_id\<close> and \<^verbatim>\<open>status\<close>, and the stored result is \<^verbatim>\<open>None\<close>.
\<close>

theorem finished_job_has_no_report:
  "get_task_status
     (snd (run_task (\<lambda>i. 42) [''students.csv'' \<mapsto> [Record csv_header, Record ada]]
             Map.empty empty_db ''t1'' ''students.csv''))
     ''t1''
   = \<lparr>status_code = 200, data = [(''task_id'', ''t1''), (''status'', ''SUCCESS'')]\<rparr>
   \<and> map_option result
       (snd (run_task (\<lambda>i. 42) [''students.csv'' \<mapsto> [Record csv_header, Record ada]]
               Map.empty empty_db ''t1'' ''students.csv'') ''t1'')
     = Some PyNone"
  by (simp add: run_task_def get_task_status_def AsyncResult_status_def model_defs example_defs)

text \<open>
  C5, amended: for a job that has run, the status view answers 200 with exactly two
  items, the task id and the state, which is \<^verbatim>\<open>SUCCESS\<close> when the task returned and
  \<^verbatim>\<open>FAILURE\<close> when an exception ended it; the result the backend keeps is \<^verbatim>\<open>None\<close>
  or that exception. No counter is kept or returned.
\<close>

theorem status_has_no_report:
  "get_task_status (snd (run_task now fs backend db task_id file_path)) task_id
     = \<lparr>status_code = 200,
        data = [(''task_id'', task_id),
                (''status'', case fst (process_students_csv now fs file_path db) of
                               Returned \<Rightarrow> ''SUCCESS'' | Raised e \<Rightarrow> ''FAILURE'')]\<rparr>
   \<and> map_option result (snd (run_task now fs backend db task_id file_path) task_id)
       = Some (case fst (process_students_csv now fs file_path db) of
                 Returned \<Rightarrow> PyNone | Raised e \<Rightarrow> Exc e)"
  by (cases "process_students_csv now fs file_path db")
     (auto simp: run_task_def get_task_status_def AsyncResult_status_def split: outcome.splits)

theorem status_has_no_report_witness:
  "get_task_status
     (snd (run_task (\<lambda>i. 42) [''students.csv'' \<mapsto> [Record csv_header, Record [''S001'']]]
             Map.empty empty_db ''t2'' ''students.csv''))
     ''t2''
   = \<lparr>status_code = 200, data = [(''task_id'', ''t2''), (''status'', ''FAILURE'')]\<rparr>
   \<and> map_option result
       (snd (run_task (\<lambda>i. 42) [''students.csv'' \<mapsto> [Record csv_header, Record [''S001'']]]
               Map.empty empty_db ''t2'' ''students.csv'') ''t2'')
     = Some (Exc IntegrityError)"
proof -
  have 1: "process_students_csv (\<lambda>i. 42)
             [''students.csv'' \<mapsto> [Record csv_header, Record [''S001'']]] ''students.csv'' empty_db
           = (Raised IntegrityError, empty_db)"
    by (simp add: model_defs example_defs)
  from status_has_no_report[of "\<lambda>i. 42"
         "[''students.csv'' \<mapsto> [Record csv_header, Record [''S001'']]]" Map.empty empty_db
         "''t2''" "''students.csv''"]
  show ?thesis by (simp add: 1)
qed

section \<open>The order of the rows (C6)\<close>

text \<open>
  C6, as the specification states it: processing the rows of a batch in any order yields
  the same accounts and profiles. Two rows with the same \<^verbatim>\<open>reg_no\<close> and different
  names leave the names of whichever comes first; and a row whose account cannot be
  inserted ends the task, so the rows placed before it are stored and the rows placed
  after it are not.
\<close>

theorem order_changes_entities:
  "accounts (snd (dict_reader (\<lambda>i. 42) [Record csv_header, Record ada, Record ada_again] empty_db))
     = {(''S001'', ''Ada'', ''Lovelace'', ''ada@x.com'')}
   \<and> accounts (snd (dict_reader (\<lambda>i. 42) [Record csv_header, Record ada_again, Record ada] empty_db))
     = {(''S001'', ''Ada'', ''L'', '''')}
   \<and> accounts (snd (dict_reader (\<lambda>i. 42) [Record csv_header, Record ada, Record [''S002'']] empty_db))
     = {(''S001'', ''Ada'', ''Lovelace'', ''ada@x.com'')}
   \<and> accounts (snd (dict_reader (\<lambda>i. 42) [Record csv_header, Record [''S002''], Record ada] empty_db))
     = {}"
  by (simp add: model_defs example_defs view_defs)

text \<open>
  C6, amended: on a consistent database, when the rows of the batch carry pairwise
  different \<^verbatim>\<open>reg_no\<close> values and the task returns on the file order, it returns on
  every permutation of the rows, and the accounts and the profiles it leaves are the
  same up to primary keys and creation times (a profile's account being named by its
  username).
\<close>

theorem order_of_distinct_rows:
  assumes "consistent db"
      and "mset lines' = mset lines"
      and "distinct (batch_keys fieldnames lines)"
      and "dict_reader now (Record fieldnames # lines) db = (Returned, db1)"
  shows "fst (dict_reader now' (Record fieldnames # lines') db) = Returned
       \<and> accounts (snd (dict_reader now' (Record fieldnames # lines') db)) = accounts db1
       \<and> profiles (snd (dict_reader now' (Record fieldnames # lines') db)) = profiles db1"
proof -
  from assms(2) have sets: "set lines' = set lines" by (rule mset_eq_setD)
  from batch_keys_mset[OF assms(2)] assms(3)
  have dist': "distinct (batch_keys fieldnames lines')"
    by (metis mset_eq_imp_distinct_iff)
  from assms(4) have r1: "rows_loop now fieldnames lines db = (Returned, db1)"
    by (simp add: dict_reader_def)
  then have "fst (rows_loop now fieldnames lines db) = Returned" by simp
  with rows_loop_returns_iff[OF assms(1,3)] have "\<forall>l\<in>set lines. line_ok fieldnames db l"
    by simp
  with rows_loop_returns_iff[OF assms(1) dist', of now'] sets
  have ret: "fst (rows_loop now' fieldnames lines' db) = Returned" by simp
  then obtain db2 where r2: "rows_loop now' fieldnames lines' db = (Returned, db2)"
    by (cases "rows_loop now' fieldnames lines' db") auto
  from rows_loop_content[OF assms(1,3) r1] rows_loop_content[OF assms(1) dist' r2] sets
  have "accounts db2 = accounts db1" "profiles db2 = profiles db1" by simp_all
  with r2 show ?thesis by (simp add: dict_reader_def)
qed

theorem order_of_distinct_rows_witness:
  "consistent empty_db
   \<and> mset [Record bob, Record ada] = mset [Record ada, Record bob]
   \<and> distinct (batch_keys csv_header [Record ada, Record bob])
   \<and> fst (dict_reader (\<lambda>i. 42) (Record csv_header # [Record ada, Record bob]) empty_db) = Returned
   \<and> fst (dict_reader (\<lambda>i. 7) (Record csv_header # [Record bob, Record ada]) empty_db) = Returned
   \<and> accounts (snd (dict_reader (\<lambda>i. 7) (Record csv_header # [Record bob, Record ada]) empty_db))
       = {(''S001'', ''Ada'', ''Lovelace'', ''ada@x.com''), (''S002'', ''Bob'', ''Stone'', ''bob@x.com'')}
   \<and> profiles (snd (dict_reader (\<lambda>i. 7) (Record csv_header # [Record bob, Record ada]) empty_db))
       = {(''S001'', ''Ada'', ''Lovelace'', Some ''ada@x.com'', ''CS'', ''300'', Some ''S001''),
          (''S002'', ''Bob'', ''Stone'', Some ''bob@x.com'', ''EE'', ''100'', Some ''S002'')}"
proof -
  have 1: "consistent empty_db"
    by (simp add: consistent_def unique_constraints_def empty_db_def)
  have 2: "mset [Record bob, Record ada] = mset [Record ada, Record bob]"
    by (simp add: add_mset_commute)
  have 3: "distinct (batch_keys csv_header [Record ada, Record bob])"
    by (simp add: batch_keys_def is_data_def line_key_def dict_row_def row_get_def example_defs)
  obtain db1 where 4: "dict_reader (\<lambda>i. 42) (Record csv_header # [Record ada, Record bob]) empty_db
                         = (Returned, db1)"
    by (simp add: model_defs example_defs)
  have 5: "accounts db1
       = {(''S001'', ''Ada'', ''Lovelace'', ''ada@x.com''), (''S002'', ''Bob'', ''Stone'', ''bob@x.com'')}"
      "profiles db1
       = {(''S001'', ''Ada'', ''Lovelace'', Some ''ada@x.com'', ''CS'', ''300'', Some ''S001''),
          (''S002'', ''Bob'', ''Stone'', Some ''bob@x.com'', ''EE'', ''100'', Some ''S002'')}"
    using 4 by (auto simp: model_defs example_defs view_defs)
  from order_of_distinct_rows[OF 1 2 3 4, of "\<lambda>i. 7"] 1 2 3 4 5 show ?thesis by simp
qed

section \<open>Short rows (C7)\<close>

text \<open>
  C7 says that a short row, one that lacks the trailing \<^verbatim>\<open>department\<close> and
  \<^verbatim>\<open>level\<close> cells, gets the empty string for both. \<^verbatim>\<open>DictReader\<close> fills the missing
  cells with \<^verbatim>\<open>None\<close>, so the keys are present and the default of
  \<^verbatim>\<open>row.get("department", "")\<close> is not used: both values are \<^verbatim>\<open>None\<close>, the insert of
  the profile violates \<^verbatim>\<open>NOT NULL\<close>, and the task ends in \<^verbatim>\<open>IntegrityError\<close> with the
  account inserted and no profile.
\<close>

theorem short_row_gets_none:
  "row_get_default (dict_row csv_header [''S001'', ''Ada'', ''Lovelace'', ''ada@x.com''])
       ''department'' '''' = None
   \<and> row_get_default (dict_row csv_header [''S001'', ''Ada'', ''Lovelace'', ''ada@x.com''])
       ''level'' '''' = None
   \<and> process_students_csv (\<lambda>i. 42)
       [''students.csv'' \<mapsto>
          [Record csv_header, Record [''S001'', ''Ada'', ''Lovelace'', ''ada@x.com'']]]
       ''students.csv'' empty_db
     = (Raised IntegrityError,
        \<lparr>auth_users = [ada_user], students = [], user_seq = 2, student_seq = 1,
         enforces_max_length = False\<rparr>)"
  by (simp add: model_defs example_defs)

section \<open>A file without the expected header (C8)\<close>

text \<open>
  C8, as the specification states it: a file whose header lacks the expected column names
  fails with a schema error before any row is produced, and nothing is created. The
  reader checks nothing: a file that starts with a data record uses it as the header and,
  with no record after it, the task returns normally; a header without
  \<^verbatim>\<open>department\<close> and \<^verbatim>\<open>level\<close> is accepted, and the account and the profile are
  created with both fields empty.
\<close>

theorem no_schema_check:
  "process_students_csv (\<lambda>i. 42) [''students.csv'' \<mapsto> [Record ada]] ''students.csv'' empty_db
     = (Returned, empty_db)
   \<and> process_students_csv (\<lambda>i. 42)
       [''students.csv'' \<mapsto> [Record (take 4 csv_header), Record (take 4 ada)]]
       ''students.csv'' empty_db
     = (Returned,
        \<lparr>auth_users = [ada_user],
         students = [(ada_student 42)\<lparr>department := '''', level := ''''\<rparr>],
         user_seq = 2, student_seq = 2, enforces_max_length = False\<rparr>)"
  by (simp add: model_defs example_defs)

text \<open>
  C8, amended: when the first record of the file does not contain \<^verbatim>\<open>reg_no\<close>, the
  run leaves the database unchanged. It returns normally when no non-empty record
  follows; it ends with the reader's exception when that comes first; otherwise it ends
  at the first non-empty record with the \<^verbatim>\<open>IntegrityError\<close> (or, for an over-long
  value on an engine that checks lengths, the \<^verbatim>\<open>DataError\<close>) of the account insert.
\<close>

theorem header_without_reg_no:
  assumes "''reg_no'' \<notin> set fieldnames"
  shows "snd (dict_reader now (Record fieldnames # rest) db) = db
       \<and> (case dropWhile (\<lambda>l. l = Record []) rest of
            [] \<Rightarrow> fst (dict_reader now (Record fieldnames # rest) db) = Returned
          | Raise e # _ \<Rightarrow> fst (dict_reader now (Record fieldnames # rest) db) = Raised e
          | Record row # _ \<Rightarrow>
              fst (dict_reader now (Record fieldnames # rest) db)
                \<in> {Raised IntegrityError, Raised DataError})"
proof -
  have key: "row_get (dict_row fieldnames row) ''reg_no'' = None" for row
    using assms by (simp add: row_get_def dict_row_absent)
  define P where "P rest out =
       (case dropWhile (\<lambda>l. l = Record []) rest of
            [] \<Rightarrow> out = Returned
          | Raise e # _ \<Rightarrow> out = Raised e
          | Record row # _ \<Rightarrow> out \<in> {Raised IntegrityError, Raised DataError})"
    for rest :: "line list" and out :: outcome
  have "snd (rows_loop now fieldnames rest db) = db
       \<and> P rest (fst (rows_loop now fieldnames rest db))"
  proof (induction rest)
    case Nil
    then show ?case by (simp add: P_def)
  next
    case (Cons l rest)
    show ?case
    proof (cases l)
      case (Record row)
      show ?thesis
      proof (cases "row = []")
        case True
        with Record have "P (l # rest) out = P rest out" for out
          by (simp add: P_def)
        with True Record Cons show ?thesis by simp
      next
        case False
        obtain out db' where p: "process_row now (dict_row fieldnames row) db = (out, db')"
          by (cases "process_row now (dict_row fieldnames row) db")
        with process_row_null_key[OF key, of now row db]
        have "db' = db" "out \<in> {Raised IntegrityError, Raised DataError}" by auto
        with Record False p show ?thesis by (auto simp: P_def)
      qed
    next
      case (Raise e)
      then show ?thesis by (simp add: P_def)
    qed
  qed
  moreover have dr: "dict_reader now (Record fieldnames # rest) db = rows_loop now fieldnames rest db"
    by (simp add: dict_reader_def)
  ultimately show ?thesis unfolding dr P_def by blast
qed

theorem header_without_reg_no_witness:
  "''reg_no'' \<notin> set ada
   \<and> dict_reader (\<lambda>i. 42) (Record ada # [Record [], Record bob]) empty_db
       = (Raised IntegrityError, empty_db)"
proof -
  have h: "''reg_no'' \<notin> set ada" by (simp add: ada_def)
  from header_without_reg_no[OF h, of "\<lambda>i. 42" "[Record [], Record bob]" empty_db] h
  show ?thesis by (simp add: model_defs example_defs)
qed

section \<open>The status of an unknown id (C9)\<close>

text \<open>
  C9, as the specification states it: a status query for an id that names no known job
  fails with a not-found error. The view has no such branch: for an id the backend holds
  nothing for, while it holds another job, the answer is 200 with the state
  \<^verbatim>\<open>PENDING\<close>.
\<close>

theorem unknown_task_not_an_error:
  "status_code (get_task_status (Map.empty(''a1'' \<mapsto> \<lparr>status = ''SUCCESS'', result = PyNone\<rparr>)) ''zz'') = 200
   \<and> map_of (data (get_task_status (Map.empty(''a1'' \<mapsto> \<lparr>status = ''SUCCESS'', result = PyNone\<rparr>)) ''zz'')) ''status''
       = Some ''PENDING''"
  by (simp add: get_task_status_def AsyncResult_status_def)

text \<open>
  C9, amended: for every id the result backend holds nothing for, the status view answers
  200 with that id and the state \<^verbatim>\<open>PENDING\<close>.
\<close>

theorem unknown_task_is_pending:
  "backend task_id = None \<Longrightarrow>
     get_task_status backend task_id
       = \<lparr>status_code = 200, data = [(''task_id'', task_id), (''status'', ''PENDING'')]\<rparr>"
  by (simp add: get_task_status_def AsyncResult_status_def)

theorem unknown_task_is_pending_witness:
  "get_task_status Map.empty ''no-such-task''
       = \<lparr>status_code = 200,
          data = [(''task_id'', ''no-such-task''), (''status'', ''PENDING'')]\<rparr>"
  using unknown_task_is_pending[of Map.empty "''no-such-task''"] by simp

section \<open>An upload without a file (C10)\<close>

text \<open>
  C10: when the request carries no \<^verbatim>\<open>file\<close>, the upload view answers 400 with the
  message \<^verbatim>\<open>CSV file is required.\<close> and changes nothing: no directory is made, no
  file is written and no task is sent.
\<close>

theorem upload_without_file:
  "FILES ''file'' = None \<Longrightarrow>
     upload_students_csv MEDIA_ROOT new_id FILES srv
       = (\<lparr>status_code = 400, data = [(''error'', ''CSV file is required.'')]\<rparr>, srv)"
  by (simp add: upload_students_csv_def)

theorem upload_without_file_witness:
  "upload_students_csv ''/srv/media'' ''7f3a'' Map.empty
       \<lparr>dirs = {}, disk = Map.empty, queue = []\<rparr>
     = (\<lparr>status_code = 400, data = [(''error'', ''CSV file is required.'')]\<rparr>,
        \<lparr>dirs = {}, disk = Map.empty, queue = []\<rparr>)"
  using upload_without_file[of Map.empty "''/srv/media''" "''7f3a''"
          "\<lparr>dirs = {}, disk = Map.empty, queue = []\<rparr>"]
  by simp

end
